theory Spec2Isabelle
  imports Complex_Main "HOL-Library.Char_ord" "HOL-Library.List_Lexorder"
begin

section \<open>Errors\<close>

text \<open>
  The Python exceptions that the modelled functions raise or let through.  A function
  that may raise returns \<open>error + 'a\<close>, with \<open>Inl\<close> for the exception.
\<close>

datatype error = KeyError | IndexError | TypeError | ValueError | ValidationError | FactoryError

section \<open>Incremental cache (src/data/cache.py)\<close>

text \<open>
  A cached record is a Python \<open>dict[str, any]\<close>: an association list from field names
  to values, read with \<open>map_of\<close>.  The value type \<open>'v\<close> stands for the hashable values
  of the uniqueness fields.  \<open>item[key_field]\<close> raises \<open>KeyError\<close> when the field
  is absent.
\<close>

type_synonym 'v row = "(string \<times> 'v) list"

text \<open>\<open>{item[key_field] for item in existing}\<close>: the keys, or the first \<open>KeyError\<close>.\<close>

fun existing_keys :: "string \<Rightarrow> 'v row list \<Rightarrow> error + 'v list" where
  "existing_keys key_field [] = Inr []"
| "existing_keys key_field (item # rest) =
     (case map_of item key_field of
        None \<Rightarrow> Inl KeyError
      | Some v \<Rightarrow> (case existing_keys key_field rest of
                    Inl e \<Rightarrow> Inl e
                  | Inr ks \<Rightarrow> Inr (v # ks)))"

text \<open>\<open>[item for item in new_data if item[key_field] not in existing_keys]\<close>.\<close>

fun new_items :: "string \<Rightarrow> 'v list \<Rightarrow> 'v row list \<Rightarrow> error + 'v row list" where
  "new_items key_field ks [] = Inr []"
| "new_items key_field ks (item # rest) =
     (case map_of item key_field of
        None \<Rightarrow> Inl KeyError
      | Some v \<Rightarrow> (case new_items key_field ks rest of
                    Inl e \<Rightarrow> Inl e
                  | Inr out \<Rightarrow> Inr (if v \<notin> set ks then item # out else out)))"

text \<open>
  \<open>Cache._merge_data\<close>.  \<open>not existing\<close> holds for \<open>None\<close> and for the empty list;
  then the new data is returned as it is, unread.
\<close>

definition merge_data :: "'v row list option \<Rightarrow> 'v row list \<Rightarrow> string \<Rightarrow> error + 'v row list" where
  "merge_data existing new_data key_field =
     (case existing of
        None \<Rightarrow> Inr new_data
      | Some [] \<Rightarrow> Inr new_data
      | Some (x # xs) \<Rightarrow>
          (case existing_keys key_field (x # xs) of
             Inl e \<Rightarrow> Inl e
           | Inr ks \<Rightarrow> (case new_items key_field ks new_data of
                         Inl e \<Rightarrow> Inl e
                       | Inr added \<Rightarrow> Inr ((x # xs) @ added))))"

text \<open>The six dictionaries of a \<open>Cache\<close> object, each from a ticker to its records.\<close>

record 'v cache =
  prices_cache :: "string \<rightharpoonup> 'v row list"
  financial_metrics_cache :: "string \<rightharpoonup> 'v row list"
  line_items_cache :: "string \<rightharpoonup> 'v row list"
  insider_trades_cache :: "string \<rightharpoonup> 'v row list"
  company_news_cache :: "string \<rightharpoonup> 'v row list"
  dividends_cache :: "string \<rightharpoonup> 'v row list"

text \<open>\<open>Cache.__init__\<close>: six empty dictionaries.\<close>

definition Cache_init :: "'v cache" where
  "Cache_init = \<lparr>prices_cache = Map.empty, financial_metrics_cache = Map.empty,
     line_items_cache = Map.empty, insider_trades_cache = Map.empty,
     company_news_cache = Map.empty, dividends_cache = Map.empty\<rparr>"

definition get_prices :: "'v cache \<Rightarrow> string \<Rightarrow> 'v row list option" where
  "get_prices c ticker = prices_cache c ticker"

definition get_financial_metrics :: "'v cache \<Rightarrow> string \<Rightarrow> 'v row list option" where
  "get_financial_metrics c ticker = financial_metrics_cache c ticker"

definition get_line_items :: "'v cache \<Rightarrow> string \<Rightarrow> 'v row list option" where
  "get_line_items c ticker = line_items_cache c ticker"

definition get_insider_trades :: "'v cache \<Rightarrow> string \<Rightarrow> 'v row list option" where
  "get_insider_trades c ticker = insider_trades_cache c ticker"

definition get_company_news :: "'v cache \<Rightarrow> string \<Rightarrow> 'v row list option" where
  "get_company_news c ticker = company_news_cache c ticker"

definition get_dividends :: "'v cache \<Rightarrow> string \<Rightarrow> 'v row list option" where
  "get_dividends c ticker = dividends_cache c ticker"

text \<open>
  The setters.  An exception of \<open>_merge_data\<close> leaves the dictionary as it was: the
  assignment is not reached.
\<close>

definition set_prices :: "string \<Rightarrow> 'v row list \<Rightarrow> 'v cache \<Rightarrow> error + 'v cache" where
  "set_prices ticker data c =
     (case merge_data (prices_cache c ticker) data ''time'' of
        Inl e \<Rightarrow> Inl e
      | Inr m \<Rightarrow> Inr (c\<lparr>prices_cache := (prices_cache c)(ticker \<mapsto> m)\<rparr>))"

definition set_financial_metrics :: "string \<Rightarrow> 'v row list \<Rightarrow> 'v cache \<Rightarrow> error + 'v cache" where
  "set_financial_metrics ticker data c =
     (case merge_data (financial_metrics_cache c ticker) data ''report_period'' of
        Inl e \<Rightarrow> Inl e
      | Inr m \<Rightarrow> Inr (c\<lparr>financial_metrics_cache := (financial_metrics_cache c)(ticker \<mapsto> m)\<rparr>))"

definition set_line_items :: "string \<Rightarrow> 'v row list \<Rightarrow> 'v cache \<Rightarrow> error + 'v cache" where
  "set_line_items ticker data c =
     (case merge_data (line_items_cache c ticker) data ''report_period'' of
        Inl e \<Rightarrow> Inl e
      | Inr m \<Rightarrow> Inr (c\<lparr>line_items_cache := (line_items_cache c)(ticker \<mapsto> m)\<rparr>))"

definition set_insider_trades :: "string \<Rightarrow> 'v row list \<Rightarrow> 'v cache \<Rightarrow> error + 'v cache" where
  "set_insider_trades ticker data c =
     (case merge_data (insider_trades_cache c ticker) data ''filing_date'' of
        Inl e \<Rightarrow> Inl e
      | Inr m \<Rightarrow> Inr (c\<lparr>insider_trades_cache := (insider_trades_cache c)(ticker \<mapsto> m)\<rparr>))"

definition set_company_news :: "string \<Rightarrow> 'v row list \<Rightarrow> 'v cache \<Rightarrow> error + 'v cache" where
  "set_company_news ticker data c =
     (case merge_data (company_news_cache c ticker) data ''date'' of
        Inl e \<Rightarrow> Inl e
      | Inr m \<Rightarrow> Inr (c\<lparr>company_news_cache := (company_news_cache c)(ticker \<mapsto> m)\<rparr>))"

definition set_dividends :: "string \<Rightarrow> 'v row list \<Rightarrow> 'v cache \<Rightarrow> error + 'v cache" where
  "set_dividends ticker data c =
     (case merge_data (dividends_cache c ticker) data ''ex_dividend_date'' of
        Inl e \<Rightarrow> Inl e
      | Inr m \<Rightarrow> Inr (c\<lparr>dividends_cache := (dividends_cache c)(ticker \<mapsto> m)\<rparr>))"

text \<open>
  The data kinds, to speak about "a cache set operation" of any kind: the getter, the
  setter and the uniqueness field that the setter passes to \<open>_merge_data\<close>.
\<close>

datatype data_kind = Prices | FinancialMetrics | LineItems | InsiderTrades | CompanyNews | Dividends

fun key_field_of :: "data_kind \<Rightarrow> string" where
  "key_field_of Prices = ''time''"
| "key_field_of FinancialMetrics = ''report_period''"
| "key_field_of LineItems = ''report_period''"
| "key_field_of InsiderTrades = ''filing_date''"
| "key_field_of CompanyNews = ''date''"
| "key_field_of Dividends = ''ex_dividend_date''"

fun cache_get :: "data_kind \<Rightarrow> 'v cache \<Rightarrow> string \<Rightarrow> 'v row list option" where
  "cache_get Prices = get_prices"
| "cache_get FinancialMetrics = get_financial_metrics"
| "cache_get LineItems = get_line_items"
| "cache_get InsiderTrades = get_insider_trades"
| "cache_get CompanyNews = get_company_news"
| "cache_get Dividends = get_dividends"

fun cache_set :: "data_kind \<Rightarrow> string \<Rightarrow> 'v row list \<Rightarrow> 'v cache \<Rightarrow> error + 'v cache" where
  "cache_set Prices = set_prices"
| "cache_set FinancialMetrics = set_financial_metrics"
| "cache_set LineItems = set_line_items"
| "cache_set InsiderTrades = set_insider_trades"
| "cache_set CompanyNews = set_company_news"
| "cache_set Dividends = set_dividends"

text \<open>A sequence of set operations, each a kind, a ticker and the new records; the first
  exception ends it.\<close>

fun run_sets :: "(data_kind \<times> string \<times> 'v row list) list \<Rightarrow> 'v cache \<Rightarrow> error + 'v cache" where
  "run_sets [] c = Inr c"
| "run_sets ((k, ticker, data) # ops) c =
     (case cache_set k ticker data c of
        Inl e \<Rightarrow> Inl e
      | Inr c' \<Rightarrow> run_sets ops c')"

text \<open>The uniqueness-field values of a sequence, \<open>None\<close> where the field is missing.\<close>

definition key_values :: "string \<Rightarrow> 'v row list \<Rightarrow> 'v option list" where
  "key_values key_field items = map (\<lambda>item. map_of item key_field) items"

text \<open>No two records of a sequence share a uniqueness-field value.\<close>

definition unique_keys :: "string \<Rightarrow> 'v row list \<Rightarrow> bool" where
  "unique_keys key_field items = distinct (key_values key_field items)"

text \<open>Every record of a sequence has the uniqueness field.\<close>

definition has_key :: "string \<Rightarrow> 'v row list \<Rightarrow> bool" where
  "has_key key_field items = list_all (\<lambda>item. map_of item key_field \<noteq> None) items"

text \<open>Sample price records: two days, a second record for the second day, a third day, and
  a record without the \<open>time\<close> field.\<close>

definition day1 :: "string row" where
  "day1 = [(''time'', ''2024-01-02''), (''close'', ''10'')]"

definition day2 :: "string row" where
  "day2 = [(''time'', ''2024-01-03''), (''close'', ''11'')]"

definition day2' :: "string row" where
  "day2' = [(''time'', ''2024-01-03''), (''close'', ''12'')]"

definition day3 :: "string row" where
  "day3 = [(''time'', ''2024-01-04''), (''close'', ''13'')]"

definition no_time :: "string row" where
  "no_time = [(''close'', ''14'')]"

section \<open>Workflow graph (src/graph/builder.py)\<close>

text \<open>
  The graph object that \<open>build_agent_workflow\<close> fills is the framework's \<open>StateGraph\<close>,
  which is outside the repository.  It is modelled as the data model of the specification
  has it: a set of node ids, a set of directed edges and the entry point.  \<open>add_node\<close>
  raises \<open>ValueError\<close> when the node is already present, as the framework does.  The step
  functions attached to the nodes play no part in the topology and are left out.
\<close>

record graph =
  nodes :: "string set"
  edges :: "(string \<times> string) set"
  entry_point :: "string option"

definition StateGraph :: graph where
  "StateGraph = \<lparr>nodes = {}, edges = {}, entry_point = None\<rparr>"

definition add_node :: "string \<Rightarrow> graph \<Rightarrow> error + graph" where
  "add_node name g =
     (if name \<in> nodes g then Inl ValueError
      else Inr (g\<lparr>nodes := insert name (nodes g)\<rparr>))"

definition add_edge :: "string \<Rightarrow> string \<Rightarrow> graph \<Rightarrow> graph" where
  "add_edge start_key end_key g = g\<lparr>edges := insert (start_key, end_key) (edges g)\<rparr>"

definition set_entry_point :: "string \<Rightarrow> graph \<Rightarrow> graph" where
  "set_entry_point key g = g\<lparr>entry_point := Some key\<rparr>"

text \<open>The framework's end marker, the target of the last edge.\<close>

definition END :: string where
  "END = ''__end__''"

text \<open>
  \<open>ANALYST_CONFIG\<close> is defined in \<open>src/utils/analysts.py\<close>, which is not among the
  sources: the builder takes the list of its keys, in order, as a parameter.

  The analysts to use (the variable \<open>agents_to_use\<close>): all of them for \<open>None\<close>; otherwise
  the selected ones that are registered, and all of them again when that leaves none of a
  selection that was not empty.
\<close>

definition agents_to_use :: "string list \<Rightarrow> string list option \<Rightarrow> string list" where
  "agents_to_use all_analyst_keys selected_agents =
     (case selected_agents of
        None \<Rightarrow> all_analyst_keys
      | Some selected \<Rightarrow>
          (let valid = filter (\<lambda>agent. agent \<in> set all_analyst_keys) selected
           in if valid = [] \<and> selected \<noteq> [] then all_analyst_keys else valid))"

text \<open>The node of an analyst: \<open>f"{key}_agent"\<close>, as \<open>analyst_node_details\<close> has it.\<close>

definition node_name :: "string \<Rightarrow> string" where
  "node_name key = key @ ''_agent''"

text \<open>
  The first loop of \<open>build_agent_workflow\<close>: a node and an edge from the entry node for
  every analyst in use, up to the first \<open>ValueError\<close>.
\<close>

fun add_analysts :: "string list \<Rightarrow> graph \<Rightarrow> error + graph" where
  "add_analysts [] workflow = Inr workflow"
| "add_analysts (agent_key # others) workflow =
     (case add_node (node_name agent_key) workflow of
        Inl e \<Rightarrow> Inl e
      | Inr with_node \<Rightarrow>
          add_analysts others (add_edge ''start_node'' (node_name agent_key) with_node))"

text \<open>\<open>build_agent_workflow\<close>, statement by statement.\<close>

definition build_agent_workflow :: "string list \<Rightarrow> string list option \<Rightarrow> error + graph" where
  "build_agent_workflow all_analyst_keys selected_agents =
     (let use = agents_to_use all_analyst_keys selected_agents
      in case add_node ''start_node'' StateGraph of
           Inl e \<Rightarrow> Inl e
         | Inr started \<Rightarrow>
        (case add_analysts use started of
           Inl e \<Rightarrow> Inl e
         | Inr with_analysts \<Rightarrow>
        (case add_node ''risk_management_agent'' with_analysts of
           Inl e \<Rightarrow> Inl e
         | Inr with_risk \<Rightarrow>
        (case add_node ''portfolio_manager'' with_risk of
           Inl e \<Rightarrow> Inl e
         | Inr with_portfolio \<Rightarrow>
             (let workflow = fold (\<lambda>agent_key w.
                               add_edge (node_name agent_key) ''risk_management_agent'' w)
                               use with_portfolio;
                  workflow = (if use = []
                              then add_edge ''start_node'' ''risk_management_agent'' workflow
                              else workflow);
                  workflow = add_edge ''risk_management_agent'' ''portfolio_manager'' workflow;
                  workflow = add_edge ''portfolio_manager'' END workflow
              in Inr (set_entry_point ''start_node'' workflow))))))"

text \<open>
  The graph of a list of analysts in closed form: what the builder returns when no
  \<open>add_node\<close> raises.
\<close>

definition workflow_graph :: "string list \<Rightarrow> graph" where
  "workflow_graph use =
     \<lparr>nodes = {''start_node'', ''risk_management_agent'', ''portfolio_manager''}
               \<union> node_name ` set use,
      edges = (\<lambda>a. (''start_node'', a)) ` node_name ` set use
               \<union> (\<lambda>a. (a, ''risk_management_agent'')) ` node_name ` set use
               \<union> (if use = [] then {(''start_node'', ''risk_management_agent'')} else {})
               \<union> {(''risk_management_agent'', ''portfolio_manager''), (''portfolio_manager'', END)},
      entry_point = Some ''start_node''\<rparr>"

text \<open>The nodes that an edge leaves a node for, and those it is entered from.\<close>

definition successors :: "graph \<Rightarrow> string \<Rightarrow> string set" where
  "successors g n = snd ` Set.filter (\<lambda>e. fst e = n) (edges g)"

definition predecessors :: "graph \<Rightarrow> string \<Rightarrow> string set" where
  "predecessors g n = fst ` Set.filter (\<lambda>e. snd e = n) (edges g)"

definition out_degree :: "graph \<Rightarrow> string \<Rightarrow> nat" where
  "out_degree g n = card (successors g n)"

text \<open>The layer of a node: the entry first, the end marker last.\<close>

definition rank :: "string \<Rightarrow> nat" where
  "rank n = (if n = ''start_node'' then 4 else if n = ''risk_management_agent'' then 2
             else if n = ''portfolio_manager'' then 1 else if n = END then 0 else 3)"

text \<open>A registry of two analysts, for the examples.\<close>

definition two_analysts :: "string list" where
  "two_analysts = [''fundamentals'', ''technicals'']"

section \<open>Python values\<close>

text \<open>
  The Python objects that the language-model helpers handle: \<open>None\<close>, booleans, integers,
  floats, strings, lists, dictionaries with string keys (association lists; \<open>map_of\<close> reads
  them), classes used as annotations (\<open>str\<close>, \<open>bool\<close>, a model class), typing
  constructs with their \<open>__origin__\<close> and \<open>__args__\<close> where they have them
  (\<open>dict[str, float]\<close>, \<open>Literal["a", "b"]\<close>, \<open>str | None\<close>), instances of a pydantic
  model with their field values, and a chat message with its \<open>content\<close>.  A float is an
  exact real here; the only float the modelled code creates is \<open>0.0\<close>.  A string is a
  list of characters below 256.
\<close>

datatype pyval =
    PNone
  | PBool bool
  | PInt int
  | PFloat real
  | PStr string
  | PList "pyval list"
  | PDict "(string \<times> pyval) list"
  | PClass string
  | PAlias "string option" "pyval list option"
  | PModel "(string \<times> pyval) list"
  | PMessage pyval

section \<open>Text helpers of Python\<close>

text \<open>\<open>str.find\<close>: the index of the first occurrence, \<open>None\<close> for \<open>-1\<close>.\<close>

fun py_find :: "string \<Rightarrow> string \<Rightarrow> nat option" where
  "py_find sub [] = (if sub = [] then Some 0 else None)"
| "py_find sub (c # cs) =
     (if take (length sub) (c # cs) = sub then Some 0
      else map_option Suc (py_find sub cs))"

text \<open>\<open>str.isspace\<close> on one character below 256, and \<open>str.strip\<close>.\<close>

definition is_space :: "char \<Rightarrow> bool" where
  "is_space c = ((of_char c :: nat) \<in> {9, 10, 11, 12, 13, 28, 29, 30, 31, 32, 133, 160})"

definition py_strip :: "string \<Rightarrow> string" where
  "py_strip s = rev (dropWhile is_space (rev (dropWhile is_space s)))"

section \<open>Language-model helpers (src/utils/llm.py, src/utils/parsing.py)\<close>

text \<open>
  \<open>json.loads\<close> belongs to Python's library, not to the repository: the functions that
  call it take it as the parameter \<open>loads\<close>.  It returns the decoded value (\<open>None\<close> for
  the JSON text \<open>null\<close>), raises \<open>JSONDecodeError\<close>, or raises some other exception
  (\<open>RecursionError\<close> on a text nested too deep).
\<close>

datatype decoded = Decoded pyval | JSONDecodeError | UnexpectedError

type_synonym json_loads = "string \<Rightarrow> decoded"

text \<open>
  \<open>re.sub(r"<think>.*?</think>", "", content, flags=re.DOTALL)\<close>: the leftmost
  \<open><think>\<close> that has a \<open></think>\<close> after it is removed up to the first such
  \<open></think>\<close>, and the search goes on behind it.  The recursion is on a counter that
  starts at the length of the text.
\<close>

fun remove_think_from :: "nat \<Rightarrow> string \<Rightarrow> string" where
  "remove_think_from 0 s = s"
| "remove_think_from (Suc n) s =
     (case py_find ''<think>'' s of
        None \<Rightarrow> s
      | Some i \<Rightarrow>
          (case py_find ''</think>'' (drop (i + 7) s) of
             None \<Rightarrow> s
           | Some j \<Rightarrow> take i s @ remove_think_from n (drop (i + 7 + j + 8) s)))"

definition remove_think :: "string \<Rightarrow> string" where
  "remove_think s = remove_think_from (length s) s"

text \<open>
  The text between the first \<open>```json\<close> and the next \<open>```\<close>, stripped: the lines of
  \<open>extract_json_from_response\<close> from \<open>content.find("```json")\<close> to \<open>json_text\<close>.
\<close>

definition json_block :: "string \<Rightarrow> string option" where
  \<open>json_block content =
     (case py_find ''```json'' content of
        None \<Rightarrow> None
      | Some json_start \<Rightarrow>
          (let json_text_start = drop (json_start + 7) content
           in case py_find ''```'' json_text_start of
                None \<Rightarrow> None
              | Some json_end \<Rightarrow> Some (py_strip (take json_end json_text_start))))\<close>

text \<open>
  \<open>extract_json_from_response\<close>.  A \<open>JSONDecodeError\<close> of the block falls through to
  the whole content; any other exception reaches the outer handler, which returns
  \<open>None\<close>.
\<close>

definition extract_json_from_response :: "json_loads \<Rightarrow> string \<Rightarrow> pyval" where
  "extract_json_from_response loads content =
     (let content = py_strip (remove_think content);
          whole = (case loads content of
                     Decoded v \<Rightarrow> v
                   | JSONDecodeError \<Rightarrow> PNone
                   | UnexpectedError \<Rightarrow> PNone)
      in case json_block content of
           None \<Rightarrow> whole
         | Some json_text \<Rightarrow>
             (case loads json_text of
                Decoded v \<Rightarrow> v
              | JSONDecodeError \<Rightarrow> whole
              | UnexpectedError \<Rightarrow> PNone))"

text \<open>\<open>parse_json_response\<close> of \<open>src/utils/parsing.py\<close>, on any Python value.\<close>

definition parse_json_response :: "json_loads \<Rightarrow> pyval \<Rightarrow> pyval" where
  "parse_json_response loads response_content =
     (case response_content of
        PStr s \<Rightarrow> (case loads s of
                     Decoded v \<Rightarrow> v
                   | JSONDecodeError \<Rightarrow> PNone
                   | UnexpectedError \<Rightarrow> PNone)
      | _ \<Rightarrow> PNone)"

text \<open>
  The \<open>decisions\<close> that \<open>run_hedge_fund\<close> of \<open>src/main.py\<close> returns, from the content of
  the last message: \<open>parsed_response.get("decisions")\<close> for a dictionary, else \<open>None\<close>.
\<close>

definition run_hedge_fund_decisions :: "json_loads \<Rightarrow> pyval \<Rightarrow> pyval" where
  "run_hedge_fund_decisions loads content =
     (case parse_json_response loads content of
        PDict d \<Rightarrow> (case map_of d ''decisions'' of None \<Rightarrow> PNone | Some v \<Rightarrow> v)
      | _ \<Rightarrow> PNone)"

text \<open>
  A pydantic model class, the argument \<open>pydantic_model\<close>: its \<open>model_fields\<close>, each
  name with its annotation (a class or a typing construct), and the call
  \<open>model_class(**kwargs)\<close>, which is pydantic's validation and lies outside the
  repository.  It returns an instance or raises \<open>ValidationError\<close>.
\<close>

record schema =
  model_fields :: "(string \<times> pyval) list"
  construct :: "(string \<times> pyval) list \<Rightarrow> error + pyval"

text \<open>
  The default of one field, the \<open>if\<close> chain of \<open>create_default_response\<close>.
  \<open>__args__[0]\<close> raises \<open>IndexError\<close> on an empty tuple of arguments.
\<close>

fun default_value :: "pyval \<Rightarrow> error + pyval" where
  "default_value annotation =
     (if annotation = PClass ''str'' then Inr (PStr ''Error in analysis, using default'')
      else if annotation = PClass ''float'' then Inr (PFloat 0)
      else if annotation = PClass ''int'' then Inr (PInt 0)
      else (case annotation of
              PAlias (Some origin) args \<Rightarrow>
                (if origin = ''dict'' then Inr (PDict [])
                 else (case args of
                         Some [] \<Rightarrow> Inl IndexError
                       | Some (a # as) \<Rightarrow> Inr a
                       | None \<Rightarrow> Inr PNone))
            | PAlias None (Some []) \<Rightarrow> Inl IndexError
            | PAlias None (Some (a # as)) \<Rightarrow> Inr a
            | _ \<Rightarrow> Inr PNone))"

text \<open>The loop over \<open>model_fields.items()\<close> that fills \<open>default_values\<close>.\<close>

fun default_values :: "(string \<times> pyval) list \<Rightarrow> error + (string \<times> pyval) list" where
  "default_values [] = Inr []"
| "default_values ((field_name, annotation) # others) =
     (case default_value annotation of
        Inl e \<Rightarrow> Inl e
      | Inr v \<Rightarrow> (case default_values others of
                    Inl e \<Rightarrow> Inl e
                  | Inr rest \<Rightarrow> Inr ((field_name, v) # rest)))"

text \<open>An annotation whose \<open>__args__[0]\<close>, where the default reads it, exists.\<close>

definition usable :: "pyval \<Rightarrow> bool" where
  "usable annotation = (\<forall>origin. annotation = PAlias origin (Some []) \<longrightarrow> origin = Some ''dict'')"

definition create_default_response :: "schema \<Rightarrow> error + pyval" where
  "create_default_response model_class =
     (case default_values (model_fields model_class) of
        Inl e \<Rightarrow> Inl e
      | Inr vals \<Rightarrow> construct model_class vals)"

text \<open>
  One pass through the \<open>try\<close> block of \<open>call_llm\<close>: \<open>Some\<close> the value it returns,
  \<open>None\<close> when an exception reaches the handler.  \<open>manual\<close> is the condition
  \<open>model_info and not model_info.has_json_mode()\<close>; \<open>reply\<close> is what \<open>llm.invoke\<close> did,
  \<open>None\<close> for an exception.  With structured output the result is returned as it is.
  Otherwise its \<open>content\<close> must be a string (\<open>re.sub\<close> raises \<open>TypeError\<close> on anything
  else), the extracted value must not be \<open>None\<close>, and must be a dictionary for
  \<open>pydantic_model(**parsed_result)\<close>.
\<close>

definition attempt_once :: "json_loads \<Rightarrow> schema \<Rightarrow> bool \<Rightarrow> pyval option \<Rightarrow> pyval option" where
  "attempt_once loads pydantic_model manual reply =
     (case reply of
        None \<Rightarrow> None
      | Some result \<Rightarrow>
          (if manual then
             (case result of
                PMessage (PStr content) \<Rightarrow>
                  (case extract_json_from_response loads content of
                     PNone \<Rightarrow> None
                   | PDict parsed_result \<Rightarrow>
                       (case construct pydantic_model parsed_result of
                          Inl e \<Rightarrow> None
                        | Inr instance \<Rightarrow> Some instance)
                   | _ \<Rightarrow> None)
              | _ \<Rightarrow> None)
           else Some result))"

text \<open>
  What \<open>call_llm\<close> returns after the last failed attempt: the result of
  \<open>default_factory\<close> when one is given (it may raise), else the schema default.
\<close>

definition fallback :: "schema \<Rightarrow> (error + pyval) option \<Rightarrow> error + pyval" where
  "fallback pydantic_model default_factory =
     (case default_factory of
        Some made \<Rightarrow> made
      | None \<Rightarrow> create_default_response pydantic_model)"

text \<open>
  The loop \<open>for attempt in range(max_retries)\<close>, on the number of attempts left.  The
  provider \<open>llm\<close> gives the outcome of \<open>llm.invoke(prompt)\<close> at each attempt.  The result
  comes with the number of calls made to the provider.  When the loop ends without a
  return, the last line of \<open>call_llm\<close> creates the schema default.
\<close>

fun retry_loop :: "json_loads \<Rightarrow> schema \<Rightarrow> bool \<Rightarrow> (nat \<Rightarrow> pyval option) \<Rightarrow> int \<Rightarrow>
    (error + pyval) option \<Rightarrow> nat \<Rightarrow> nat \<Rightarrow> (error + pyval) \<times> nat" where
  "retry_loop loads pydantic_model manual llm max_retries default_factory 0 attempt =
     (create_default_response pydantic_model, attempt)"
| "retry_loop loads pydantic_model manual llm max_retries default_factory (Suc left) attempt =
     (case attempt_once loads pydantic_model manual (llm attempt) of
        Some result \<Rightarrow> (Inr result, Suc attempt)
      | None \<Rightarrow>
          (if int attempt = max_retries - 1
           then (fallback pydantic_model default_factory, Suc attempt)
           else retry_loop loads pydantic_model manual llm max_retries default_factory
                  left (Suc attempt)))"

text \<open>
  \<open>call_llm\<close>.  \<open>model_info\<close> is \<open>None\<close> when the model is unknown, else whether it has a
  JSON mode.  The calls before the loop (\<open>get_model_info\<close>, \<open>get_model\<close>,
  \<open>with_structured_output\<close>) and the progress updates are taken to return.
\<close>

definition call_llm :: "json_loads \<Rightarrow> (nat \<Rightarrow> pyval option) \<Rightarrow> bool option \<Rightarrow> schema \<Rightarrow> int \<Rightarrow>
    (error + pyval) option \<Rightarrow> (error + pyval) \<times> nat" where
  "call_llm loads llm model_info pydantic_model max_retries default_factory =
     (let manual = (case model_info of None \<Rightarrow> False | Some has_json_mode \<Rightarrow> \<not> has_json_mode)
      in retry_loop loads pydantic_model manual llm max_retries default_factory
           (nat max_retries) 0)"

text \<open>
  A model of pydantic's validation for the examples: every field must be given, and its
  value must be an instance of the annotated class, a member of the \<open>Literal\<close>, or a
  dictionary for \<open>dict[...]\<close>.  It leaves out the coercions of pydantic's lax mode, none of
  which accepts \<open>None\<close> for a \<open>bool\<close> or a \<open>str\<close> field.
\<close>

fun instance_of :: "pyval \<Rightarrow> pyval \<Rightarrow> bool" where
  "instance_of (PClass c) v =
     (case v of
        PStr s \<Rightarrow> c = ''str''
      | PFloat x \<Rightarrow> c = ''float''
      | PInt i \<Rightarrow> c = ''int'' \<or> c = ''float''
      | PBool b \<Rightarrow> c = ''bool''
      | _ \<Rightarrow> False)"
| "instance_of (PAlias (Some origin) (Some args)) v =
     (if origin = ''Literal'' then v \<in> set args
      else if origin = ''dict'' then (case v of PDict d \<Rightarrow> True | _ \<Rightarrow> False)
      else False)"
| "instance_of annotation v = False"

definition strict_construct :: "(string \<times> pyval) list \<Rightarrow> (string \<times> pyval) list \<Rightarrow> error + pyval" where
  "strict_construct field_list kwargs =
     (if list_all (\<lambda>(field_name, annotation).
            case map_of kwargs field_name of
              None \<Rightarrow> False
            | Some v \<Rightarrow> instance_of annotation v) field_list
      then Inr (PModel (map (\<lambda>(field_name, annotation). (field_name, the (map_of kwargs field_name))) field_list))
      else Inl ValidationError)"

definition pydantic :: "(string \<times> pyval) list \<Rightarrow> schema" where
  "pydantic field_list = \<lparr>model_fields = field_list, construct = strict_construct field_list\<rparr>"

text \<open>Two model classes: a trading signal, and one with a \<open>bool\<close> field.\<close>

definition signal_model :: schema where
  "signal_model = pydantic
     [(''signal'', PAlias (Some ''Literal'') (Some [PStr ''bullish'', PStr ''bearish'', PStr ''neutral''])),
      (''confidence'', PClass ''float''),
      (''reasoning'', PClass ''str'')]"

definition flagged_model :: schema where
  "flagged_model = pydantic [(''approved'', PClass ''bool''), (''reasoning'', PClass ''str'')]"

text \<open>A provider that fails at every attempt.\<close>

definition failing_llm :: "nat \<Rightarrow> pyval option" where
  "failing_llm attempt = None"

section \<open>A JSON decoder for the examples\<close>

text \<open>
  The examples need \<open>json.loads\<close> on concrete texts.  This decoder reads the JSON texts
  made of \<open>null\<close>, \<open>true\<close>, \<open>false\<close>, integers, strings without escapes, arrays and
  objects, with JSON's white space between the tokens, and gives the values that
  \<open>json.loads\<close> gives for them; a later pair of an object replaces an earlier one with the
  same key.  Every other text is a \<open>JSONDecodeError\<close> here, which is what \<open>json.loads\<close>
  does for a malformed text; texts with fractions, exponents or escapes are outside this
  decoder.  The recursion is on a counter that starts above the length of the text.
\<close>

definition json_ws :: "char \<Rightarrow> bool" where
  "json_ws c = (c = CHR '' '' \<or> c = CHR 0x09 \<or> c = CHR 0x0A \<or> c = CHR 0x0D)"

definition skip_ws :: "string \<Rightarrow> string" where
  "skip_ws s = dropWhile json_ws s"

definition is_digit :: "char \<Rightarrow> bool" where
  "is_digit c = (48 \<le> (of_char c :: nat) \<and> (of_char c :: nat) \<le> 57)"

definition digits_value :: "string \<Rightarrow> int" where
  "digits_value ds = foldl (\<lambda>acc c. 10 * acc + (int (of_char c) - 48)) 0 ds"

text \<open>The characters of a string up to its closing quote, and the text behind the quote.\<close>

fun string_body :: "string \<Rightarrow> (string \<times> string) option" where
  "string_body [] = None"
| "string_body (c # cs) =
     (if c = CHR 0x22 then Some ([], cs)
      else if c = CHR 0x5C \<or> (of_char c :: nat) < 32 then None
      else map_option (\<lambda>(body, rest). (c # body, rest)) (string_body cs))"

text \<open>An integer without sign: \<open>0\<close>, or digits that do not start with \<open>0\<close>.\<close>

definition natural :: "string \<Rightarrow> (int \<times> string) option" where
  "natural s =
     (let run = takeWhile is_digit s;
          ds = (if take 1 run = ''0'' then ''0'' else run);
          rest = drop (length ds) s
      in if ds = [] then None
         else if rest \<noteq> [] \<and> hd rest \<in> {CHR ''.'', CHR ''e'', CHR ''E''} then None
         else Some (digits_value ds, rest))"

definition dict_set :: "string \<Rightarrow> pyval \<Rightarrow> (string \<times> pyval) list \<Rightarrow> (string \<times> pyval) list" where
  "dict_set k v d =
     (if k \<in> set (map fst d) then map (\<lambda>(k', v'). if k' = k then (k', v) else (k', v')) d
      else d @ [(k, v)])"

fun json_value :: "nat \<Rightarrow> string \<Rightarrow> (pyval \<times> string) option"
  and json_elements :: "nat \<Rightarrow> pyval list \<Rightarrow> string \<Rightarrow> (pyval \<times> string) option"
  and json_members :: "nat \<Rightarrow> (string \<times> pyval) list \<Rightarrow> string \<Rightarrow> (pyval \<times> string) option" where
  "json_value 0 s = None"
| "json_value (Suc n) s =
     (if take 4 s = ''null'' then Some (PNone, drop 4 s)
      else if take 4 s = ''true'' then Some (PBool True, drop 4 s)
      else if take 5 s = ''false'' then Some (PBool False, drop 5 s)
      else (case s of
              [] \<Rightarrow> None
            | c # cs \<Rightarrow>
                (if c = CHR 0x22 then map_option (\<lambda>(body, rest). (PStr body, rest)) (string_body cs)
                 else if c = CHR ''-'' then map_option (\<lambda>(i, rest). (PInt (- i), rest)) (natural cs)
                 else if is_digit c then map_option (\<lambda>(i, rest). (PInt i, rest)) (natural s)
                 else if c = CHR ''[''
                   then (case skip_ws cs of
                           [] \<Rightarrow> None
                         | d # ds \<Rightarrow> if d = CHR '']'' then Some (PList [], ds)
                                     else json_elements n [] (d # ds))
                 else if c = CHR ''{''
                   then (case skip_ws cs of
                           [] \<Rightarrow> None
                         | d # ds \<Rightarrow> if d = CHR ''}'' then Some (PDict [], ds)
                                     else json_members n [] (d # ds))
                 else None)))"
| "json_elements 0 acc s = None"
| "json_elements (Suc n) acc s =
     (case json_value n s of
        None \<Rightarrow> None
      | Some (v, rest) \<Rightarrow>
          (case skip_ws rest of
             [] \<Rightarrow> None
           | d # ds \<Rightarrow> if d = CHR '']'' then Some (PList (acc @ [v]), ds)
                       else if d = CHR '','' then json_elements n (acc @ [v]) (skip_ws ds)
                       else None))"
| "json_members 0 acc s = None"
| "json_members (Suc n) acc s =
     (case s of
        [] \<Rightarrow> None
      | q # after_quote \<Rightarrow>
          (if q \<noteq> CHR 0x22 then None
           else (case string_body after_quote of
                   None \<Rightarrow> None
                 | Some (key, rest) \<Rightarrow>
                     (case skip_ws rest of
                        [] \<Rightarrow> None
                      | colon # after_colon \<Rightarrow>
                          (if colon \<noteq> CHR '':'' then None
                           else (case json_value n (skip_ws after_colon) of
                                   None \<Rightarrow> None
                                 | Some (v, rest') \<Rightarrow>
                                     (case skip_ws rest' of
                                        [] \<Rightarrow> None
                                      | d # ds \<Rightarrow>
                                          if d = CHR ''}'' then Some (PDict (dict_set key v acc), ds)
                                          else if d = CHR '','' then json_members n (dict_set key v acc) (skip_ws ds)
                                          else None)))))))"

definition json_loads :: json_loads where
  "json_loads s =
     (case json_value (Suc (length s)) (skip_ws s) of
        None \<Rightarrow> JSONDecodeError
      | Some (v, rest) \<Rightarrow> if skip_ws rest = [] then Decoded v else JSONDecodeError)"

text \<open>The response of the extraction example, what is left of it without the markup, and
  the text of its block.\<close>

definition fenced_response :: string where
  \<open>fenced_response = ''<think>ignored</think>```json\<newline>{"signal":"bullish"}\<newline>```''\<close>

definition fenced_text :: string where
  \<open>fenced_text = ''```json\<newline>{"signal":"bullish"}\<newline>```''\<close>

definition signal_text :: string where
  \<open>signal_text = ''{"signal":"bullish"}''\<close>

section \<open>Fundamentals agent (src/agents/fundamentals.py)\<close>

text \<open>
  The data the agent reads.  The classes are those of \<open>src/data/models.py\<close>, which is not
  among the sources; the agent reads the attributes below.  A Python float is an exact
  real number here: the agent compares the figures with fixed thresholds, counts, and
  takes one quotient, and the claims about it do not depend on rounding.  An absent
  figure is \<open>None\<close>.
\<close>

record financial_metrics =
  return_on_equity :: "real option"
  net_margin :: "real option"
  operating_margin :: "real option"
  revenue_growth :: "real option"
  earnings_growth :: "real option"
  book_value_growth :: "real option"
  current_ratio :: "real option"
  debt_to_equity :: "real option"
  free_cash_flow_per_share :: "real option"
  earnings_per_share :: "real option"
  price_to_earnings_ratio :: "real option"
  price_to_book_ratio :: "real option"
  price_to_sales_ratio :: "real option"

record dividend =
  dividend_type :: string
  cash_amount :: real
  ex_dividend_date :: "string option"

text \<open>
  The functions of \<open>src/tools/api.py\<close> that the agent calls, and the one library call
  that can raise, as parameters: the metrics of a ticker up to the end date (\<open>period\<close> and
  \<open>limit\<close> are fixed), its dividend history, the closing prices between two dates, the
  \<open>earnings_per_share\<close> of the annual line items found (\<open>None\<close> where an item lacks the
  attribute or has no figure), and \<open>str(datetime.strptime(end_date, "%Y-%m-%d").year)\<close>,
  which is \<open>None\<close> when \<open>strptime\<close> raises \<open>ValueError\<close>.
\<close>

record api =
  api_get_financial_metrics :: "string \<Rightarrow> string \<Rightarrow> financial_metrics list"
  api_get_dividend_history :: "string \<Rightarrow> dividend list"
  api_get_prices :: "string \<Rightarrow> string \<Rightarrow> string \<Rightarrow> real list"
  api_search_line_items :: "string \<Rightarrow> string \<Rightarrow> real option list"
  strptime_year :: "string \<Rightarrow> string option"

text \<open>\<open>sum(metric is not None and metric > threshold for metric, threshold in thresholds)\<close>.\<close>

definition threshold_score :: "(real option \<times> real) list \<Rightarrow> nat" where
  "threshold_score thresholds =
     length (filter (\<lambda>(metric, threshold).
                        case metric of None \<Rightarrow> False | Some m \<Rightarrow> m > threshold) thresholds)"

text \<open>\<open>"bullish" if score >= 2 else "bearish" if score == 0 else "neutral"\<close>.\<close>

definition score_signal :: "nat \<Rightarrow> string" where
  "score_signal score =
     (if score \<ge> 2 then ''bullish'' else if score = 0 then ''bearish'' else ''neutral'')"

definition profitability_signal :: "financial_metrics \<Rightarrow> string" where
  "profitability_signal metrics =
     score_signal (threshold_score
       [(return_on_equity metrics, 0.15), (net_margin metrics, 0.20),
        (operating_margin metrics, 0.15)])"

definition growth_signal :: "financial_metrics \<Rightarrow> string" where
  "growth_signal metrics =
     score_signal (threshold_score
       [(revenue_growth metrics, 0.10), (earnings_growth metrics, 0.10),
        (book_value_growth metrics, 0.10)])"

text \<open>The truth value of an optional float: neither \<open>None\<close> nor zero.\<close>

definition truthy :: "real option \<Rightarrow> bool" where
  "truthy x = (case x of None \<Rightarrow> False | Some v \<Rightarrow> v \<noteq> 0)"

definition health_score :: "financial_metrics \<Rightarrow> nat" where
  "health_score metrics =
     (if truthy (current_ratio metrics) \<and> the (current_ratio metrics) > 1.5 then 1 else 0) +
     (if truthy (debt_to_equity metrics) \<and> the (debt_to_equity metrics) < 0.5 then 1 else 0) +
     (if truthy (free_cash_flow_per_share metrics) \<and> truthy (earnings_per_share metrics) \<and>
         the (free_cash_flow_per_share metrics) > the (earnings_per_share metrics) * 0.8
      then 1 else 0)"

definition financial_health_signal :: "financial_metrics \<Rightarrow> string" where
  "financial_health_signal metrics = score_signal (health_score metrics)"

text \<open>\<open>"bearish" if price_ratio_score >= 2 else "bullish" if price_ratio_score == 0 else "neutral"\<close>.\<close>

definition price_ratios_signal :: "financial_metrics \<Rightarrow> string" where
  "price_ratios_signal metrics =
     (let price_ratio_score = threshold_score
            [(price_to_earnings_ratio metrics, 25), (price_to_book_ratio metrics, 3),
             (price_to_sales_ratio metrics, 5)]
      in if price_ratio_score \<ge> 2 then ''bearish''
         else if price_ratio_score = 0 then ''bullish'' else ''neutral'')"

text \<open>
  The dictionary \<open>dividends_by_year\<close>, filled by the loop over the dividend history: the
  cash dividends (\<open>dividend_type == 'CD'\<close>, a positive amount, a date that is not empty)
  are added up under the first four characters of their date.  Its keys are also the set
  \<open>years_with_dividends\<close>.
\<close>

fun add_to_year :: "string \<Rightarrow> real \<Rightarrow> (string \<times> real) list \<Rightarrow> (string \<times> real) list" where
  "add_to_year year amount [] = [(year, 0 + amount)]"
| "add_to_year year amount ((y, so_far) # others) =
     (if y = year then (y, so_far + amount) # others
      else (y, so_far) # add_to_year year amount others)"

fun dividends_by_year :: "dividend list \<Rightarrow> (string \<times> real) list \<Rightarrow> (string \<times> real) list" where
  "dividends_by_year [] by_year = by_year"
| "dividends_by_year (d # history) by_year =
     (if dividend_type d = ''CD'' \<and> cash_amount d > 0 \<and>
         (case ex_dividend_date d of None \<Rightarrow> False | Some date \<Rightarrow> date \<noteq> [])
      then dividends_by_year history
             (add_to_year (take 4 (the (ex_dividend_date d))) (cash_amount d) by_year)
      else dividends_by_year history by_year)"

text \<open>
  \<open>latest_full_year_dividend_total\<close> from the dictionary: the total of the latest year
  before the current one, else that of the latest year, else \<open>0.0\<close>.  Years are compared
  as strings.
\<close>

definition latest_total :: "(string \<times> real) list \<Rightarrow> string \<Rightarrow> real" where
  "latest_total by_year current_year_str =
     (let sorted_div_years = rev (sort (map fst by_year))
      in case find (\<lambda>year_s. year_s < current_year_str) sorted_div_years of
           Some latest_full_div_year_str \<Rightarrow> the (map_of by_year latest_full_div_year_str)
         | None \<Rightarrow> (case sorted_div_years of
                      [] \<Rightarrow> 0
                    | year # others \<Rightarrow> the (map_of by_year year)))"

text \<open>
  The dividend analysis of one ticker: the signal, or the \<open>ValueError\<close> of \<open>strptime\<close>,
  which is called whenever the history is not empty.
\<close>

definition dividend_signal :: "api \<Rightarrow> string \<Rightarrow> dividend list \<Rightarrow> real option \<Rightarrow> real option \<Rightarrow>
    error + string" where
  "dividend_signal provider end_date dividend_history current_price latest_annual_eps =
     (if dividend_history \<noteq> [] \<and> strptime_year provider end_date = None then Inl ValueError
      else
        (let by_year = (if dividend_history \<noteq> [] then dividends_by_year dividend_history [] else []);
             latest_full_year_dividend_total =
               (if dividend_history \<noteq> []
                then latest_total by_year (the (strptime_year provider end_date)) else 0);
             dividend_score =
               (if truthy current_price \<and> latest_full_year_dividend_total > 0 \<and>
                   latest_full_year_dividend_total / the current_price > 0.03 then 1 else 0) +
               (if truthy latest_annual_eps \<and> the latest_annual_eps > 0 \<and>
                   latest_full_year_dividend_total > 0 \<and>
                   0.25 \<le> latest_full_year_dividend_total / the latest_annual_eps \<and>
                   latest_full_year_dividend_total / the latest_annual_eps \<le> 0.75 then 1 else 0) +
               (if length by_year \<ge> 3 then 1 else (0::nat))
         in Inr (if dividend_score \<ge> 2 then ''bullish''
                 else if dividend_score = 0 \<and> latest_full_year_dividend_total = 0 then ''bearish''
                 else ''neutral'')))"

text \<open>
  \<open>round(x, 2)\<close> on an exact number: to the nearest hundredth, a tie to the even one.
\<close>

definition py_round2 :: "real \<Rightarrow> real" where
  "py_round2 x =
     (let scaled = x * 100; below = \<lfloor>scaled\<rfloor>; part = scaled - of_int below
      in of_int (if part < 1 / 2 then below
                 else if part > 1 / 2 then below + 1
                 else if even below then below else below + 1) / 100)"

text \<open>
  The entry of one ticker in \<open>fundamental_analysis\<close>.  The \<open>reasoning\<close> keeps the signal of
  every aspect and leaves out the formatted \<open>details\<close>.
\<close>

record analysis =
  signal :: string
  confidence :: real
  reasoning :: "(string \<times> string) list"

definition count_signal :: "string \<Rightarrow> string list \<Rightarrow> nat" where
  "count_signal s signals = length (filter (\<lambda>x. x = s) signals)"

definition overall :: "string list \<Rightarrow> analysis" where
  "overall signals =
     (let bullish_signals = count_signal ''bullish'' signals;
          bearish_signals = count_signal ''bearish'' signals;
          overall_signal = (if bullish_signals > bearish_signals then ''bullish''
                            else if bearish_signals > bullish_signals then ''bearish''
                            else ''neutral'');
          total_signals = length signals
      in \<lparr>signal = overall_signal,
          confidence = py_round2 (real (max bullish_signals bearish_signals) / real total_signals) * 100,
          reasoning = zip [''profitability_signal'', ''growth_signal'', ''financial_health_signal'',
                           ''price_ratios_signal'', ''dividend_signal''] signals\<rparr>)"

text \<open>An entry with one of the three signals and a confidence from 0 to 100.\<close>

definition good :: "analysis \<Rightarrow> bool" where
  "good a \<longleftrightarrow> signal a \<in> {''bullish'', ''bearish'', ''neutral''} \<and> 0 \<le> confidence a \<and> confidence a \<le> 100"

text \<open>The body of the loop for a ticker that has metrics; \<open>metrics\<close> is the most recent.\<close>

definition analyze_ticker :: "api \<Rightarrow> string \<Rightarrow> string \<Rightarrow> financial_metrics \<Rightarrow> error + analysis" where
  "analyze_ticker provider end_date ticker metrics =
     (let dividend_history = api_get_dividend_history provider ticker;
          current_price_data = api_get_prices provider ticker end_date end_date;
          current_price = (case current_price_data of [] \<Rightarrow> None | price # others \<Rightarrow> Some price);
          annual_eps_items = api_search_line_items provider ticker end_date;
          latest_annual_eps = (case annual_eps_items of [] \<Rightarrow> None | item # others \<Rightarrow> item)
      in case dividend_signal provider end_date dividend_history current_price latest_annual_eps of
           Inl e \<Rightarrow> Inl e
         | Inr dividend \<Rightarrow>
             Inr (overall [profitability_signal metrics, growth_signal metrics,
                           financial_health_signal metrics, price_ratios_signal metrics,
                           dividend]))"

text \<open>
  The loop over the tickers, filling \<open>fundamental_analysis\<close>: a ticker without metrics is
  passed over by \<open>continue\<close>.
\<close>

fun analyze_tickers :: "api \<Rightarrow> string \<Rightarrow> string list \<Rightarrow> (string \<rightharpoonup> analysis) \<Rightarrow>
    error + (string \<rightharpoonup> analysis)" where
  "analyze_tickers provider end_date [] fundamental_analysis = Inr fundamental_analysis"
| "analyze_tickers provider end_date (ticker # tickers) fundamental_analysis =
     (case api_get_financial_metrics provider ticker end_date of
        [] \<Rightarrow> analyze_tickers provider end_date tickers fundamental_analysis
      | metrics # older \<Rightarrow>
          (case analyze_ticker provider end_date ticker metrics of
             Inl e \<Rightarrow> Inl e
           | Inr entry \<Rightarrow>
               analyze_tickers provider end_date tickers (fundamental_analysis(ticker \<mapsto> entry))))"

text \<open>
  The part of the shared state that the agent uses, and the agent: it stores the analysis
  under its own name.  The message it also returns carries the same analysis as JSON.
\<close>

record agent_state =
  tickers :: "string list"
  end_date :: string
  analyst_signals :: "string \<rightharpoonup> (string \<rightharpoonup> analysis)"

definition fundamentals_agent :: "api \<Rightarrow> agent_state \<Rightarrow> error + agent_state" where
  "fundamentals_agent provider state =
     (case analyze_tickers provider (end_date state) (tickers state) Map.empty of
        Inl e \<Rightarrow> Inl e
      | Inr fundamental_analysis \<Rightarrow>
          Inr (state\<lparr>analyst_signals :=
                       (analyst_signals state)(''fundamentals_agent'' \<mapsto> fundamental_analysis)\<rparr>))"

text \<open>
  The scenario of the specification: data for \<open>AAA\<close> only.  One set of metrics, two
  yearly dividends, a price and an annual figure for the earnings per share.
\<close>

definition aaa_metrics :: financial_metrics where
  "aaa_metrics = \<lparr>return_on_equity = Some 0.2, net_margin = Some 0.25, operating_margin = Some 0.1,
     revenue_growth = Some 0.05, earnings_growth = None, book_value_growth = Some 0.02,
     current_ratio = Some 2, debt_to_equity = Some 0.3, free_cash_flow_per_share = Some 3,
     earnings_per_share = Some 4, price_to_earnings_ratio = Some 30, price_to_book_ratio = Some 2,
     price_to_sales_ratio = Some 6\<rparr>"

definition aaa_only :: api where
  "aaa_only = \<lparr>
     api_get_financial_metrics = (\<lambda>ticker until. if ticker = ''AAA'' then [aaa_metrics] else []),
     api_get_dividend_history = (\<lambda>ticker. if ticker = ''AAA''
        then [\<lparr>dividend_type = ''CD'', cash_amount = 1, ex_dividend_date = Some ''2023-03-01''\<rparr>,
              \<lparr>dividend_type = ''CD'', cash_amount = 1, ex_dividend_date = Some ''2022-03-01''\<rparr>]
        else []),
     api_get_prices = (\<lambda>ticker since until. if ticker = ''AAA'' then [50] else []),
     api_search_line_items = (\<lambda>ticker until. if ticker = ''AAA'' then [Some 4] else []),
     strptime_year = (\<lambda>date. if date = ''2024-01-31'' then Some ''2024'' else None)\<rparr>"

definition two_tickers :: agent_state where
  "two_tickers = \<lparr>tickers = [''AAA'', ''BBB''], end_date = ''2024-01-31'', analyst_signals = Map.empty\<rparr>"

section \<open>Properties of the incremental cache\<close>

lemma existing_keys_has_key:
  "has_key k items \<Longrightarrow> existing_keys k items = Inr (map (\<lambda>item. the (map_of item k)) items)"
  by (induction items) (auto simp: has_key_def)

lemma existing_keys_Inr:
  "existing_keys k items = Inr ks \<Longrightarrow> has_key k items \<and> ks = map (\<lambda>item. the (map_of item k)) items"
  by (induction items arbitrary: ks) (auto simp: has_key_def split: option.splits sum.splits)

lemma existing_keys_missing:
  "\<not> has_key k items \<Longrightarrow> existing_keys k items = Inl KeyError"
  by (induction items) (auto simp: has_key_def split: option.splits sum.splits)

lemma new_items_has_key:
  "has_key k items \<Longrightarrow>
   new_items k ks items = Inr (filter (\<lambda>item. the (map_of item k) \<notin> set ks) items)"
  by (induction items) (auto simp: has_key_def)

lemma new_items_Inr:
  "new_items k ks items = Inr out \<Longrightarrow>
   has_key k items \<and> out = filter (\<lambda>item. the (map_of item k) \<notin> set ks) items"
  by (induction items arbitrary: out) (auto simp: has_key_def split: option.splits sum.splits if_splits)

lemma new_items_missing:
  "\<not> has_key k items \<Longrightarrow> new_items k ks items = Inl KeyError"
  by (induction items) (auto simp: has_key_def split: option.splits sum.splits)

lemma has_key_append: "has_key k (xs @ ys) \<longleftrightarrow> has_key k xs \<and> has_key k ys"
  by (simp add: has_key_def)

lemma has_key_filter: "has_key k xs \<Longrightarrow> has_key k (filter P xs)"
  by (induction xs) (auto simp: has_key_def)

lemma merge_data_again:
  assumes "has_key k d" and "merge_data ex d k = Inr m"
  shows "merge_data (Some m) d k = Inr m"
proof (cases "ex = None \<or> ex = Some []")
  case True
  then have m: "m = d" using assms(2) by (auto simp: merge_data_def)
  show ?thesis
  proof (cases d)
    case Nil
    then show ?thesis using m by (simp add: merge_data_def)
  next
    case (Cons a as)
    have "new_items k (map (\<lambda>item. the (map_of item k)) d) d = Inr []"
      using assms(1) by (simp add: new_items_has_key filter_empty_conv)
    then show ?thesis using m Cons assms(1)
      by (simp add: merge_data_def existing_keys_has_key del: existing_keys.simps new_items.simps)
  qed
next
  case False
  then obtain x xs where ex: "ex = Some (x # xs)"
    by (cases ex) (auto simp: neq_Nil_conv)
  let ?kv = "\<lambda>item. the (map_of item k)"
  from assms(2) ex obtain ks added where
    ks: "existing_keys k (x # xs) = Inr ks" and
    ad: "new_items k ks d = Inr added" and m: "m = (x # xs) @ added"
    by (auto simp: merge_data_def split: sum.splits simp del: existing_keys.simps)
  from existing_keys_Inr[OF ks] have hx: "has_key k (x # xs)" and ks': "ks = map ?kv (x # xs)" by auto
  from new_items_Inr[OF ad] have added: "added = filter (\<lambda>item. ?kv item \<notin> set ks) d" by simp
  have hm: "has_key k m" unfolding m using hx assms(1) unfolding added has_key_append by (simp add: has_key_filter)
  have "new_items k (map ?kv m) d = Inr []"
    using assms(1) by (auto simp add: new_items_has_key filter_empty_conv m added ks')
  moreover have "existing_keys k m = Inr (map ?kv m)" using hm by (rule existing_keys_has_key)
  ultimately show ?thesis using m
    by (simp add: merge_data_def del: existing_keys.simps new_items.simps)
qed


lemma merge_data_success:
  assumes "merge_data ex d k = Inr m"
  shows "m = (case ex of None \<Rightarrow> [] | Some old \<Rightarrow> old)
             @ filter (\<lambda>item. map_of item k \<notin> set (key_values k (case ex of None \<Rightarrow> [] | Some old \<Rightarrow> old))) d"
proof (cases "ex = None \<or> ex = Some []")
  case True
  then show ?thesis using assms by (auto simp: merge_data_def key_values_def)
next
  case False
  then obtain x xs where ex: "ex = Some (x # xs)"
    by (cases ex) (auto simp: neq_Nil_conv)
  let ?kv = "\<lambda>item. the (map_of item k)"
  from assms ex obtain ks added where
    ks: "existing_keys k (x # xs) = Inr ks" and
    ad: "new_items k ks d = Inr added" and m: "m = (x # xs) @ added"
    by (auto simp: merge_data_def split: sum.splits simp del: existing_keys.simps)
  from existing_keys_Inr[OF ks] have hx: "has_key k (x # xs)" and ks': "ks = map ?kv (x # xs)" by auto
  from new_items_Inr[OF ad] have hd: "has_key k d" and added: "added = filter (\<lambda>item. ?kv item \<notin> set ks) d" by auto
  have "\<And>item. item \<in> set d \<Longrightarrow> (?kv item \<notin> set ks) = (map_of item k \<notin> set (key_values k (x # xs)))"
  proof -
    fix item assume "item \<in> set d"
    then obtain v where v: "map_of item k = Some v" using hd by (auto simp: has_key_def list_all_iff)
    have "(v \<in> set ks) = (Some v \<in> set (key_values k (x # xs)))"
      using hx unfolding ks' key_values_def has_key_def list_all_iff
      by (force simp: image_iff)
    then show "(?kv item \<notin> set ks) = (map_of item k \<notin> set (key_values k (x # xs)))"
      using v by simp
  qed
  then have "added = filter (\<lambda>item. map_of item k \<notin> set (key_values k (x # xs))) d"
    unfolding added by (intro filter_cong) auto
  then show ?thesis using m ex by simp
qed

lemma merge_data_unique:
  assumes "merge_data ex d k = Inr m" and "unique_keys k d"
    and "\<And>old. ex = Some old \<Longrightarrow> unique_keys k old"
  shows "unique_keys k m"
proof -
  let ?old = "case ex of None \<Rightarrow> [] | Some old \<Rightarrow> old"
  have old: "unique_keys k ?old" using assms(3) by (cases ex) (auto simp: unique_keys_def key_values_def)
  have "distinct (map (\<lambda>item. map_of item k) (filter (\<lambda>item. map_of item k \<notin> set (key_values k ?old)) d))"
    using assms(2) unfolding unique_keys_def key_values_def by (rule distinct_map_filter)
  moreover have "set (key_values k ?old)
      \<inter> set (map (\<lambda>item. map_of item k) (filter (\<lambda>item. map_of item k \<notin> set (key_values k ?old)) d)) = {}"
    by auto
  ultimately have "distinct (key_values k ?old
      @ map (\<lambda>item. map_of item k) (filter (\<lambda>item. map_of item k \<notin> set (key_values k ?old)) d))"
    using old unfolding unique_keys_def by (simp only: distinct_append simp_thms)
  then show ?thesis
    unfolding unique_keys_def by (subst merge_data_success[OF assms(1)]) (simp add: key_values_def)
qed

lemma merge_data_missing:
  assumes "\<not> has_key k (x # xs) \<or> \<not> has_key k d"
  shows "merge_data (Some (x # xs)) d k = Inl KeyError"
proof (cases "has_key k (x # xs)")
  case False
  then show ?thesis
    by (simp add: merge_data_def existing_keys_missing del: existing_keys.simps)
next
  case True
  then have "\<not> has_key k d" using assms by simp
  then show ?thesis using True
    by (simp add: merge_data_def existing_keys_has_key new_items_missing del: existing_keys.simps)
qed

lemma merge_data_unchecked:
  "ex = None \<or> ex = Some [] \<Longrightarrow> merge_data ex d k = Inr d"
  by (auto simp: merge_data_def)

lemmas cache_defs = set_prices_def set_financial_metrics_def set_line_items_def
  set_insider_trades_def set_company_news_def set_dividends_def
  get_prices_def get_financial_metrics_def get_line_items_def
  get_insider_trades_def get_company_news_def get_dividends_def

text \<open>Every setter is the merge on its own dictionary.\<close>

lemma cache_set_Inr:
  "cache_set k t d c = Inr c' \<Longrightarrow>
     \<exists>m. merge_data (cache_get k c t) d (key_field_of k) = Inr m \<and> cache_get k c' t = Some m"
  by (cases k) (auto simp: cache_defs split: sum.splits)

lemma cache_set_Inl:
  "cache_set k t d c = Inl e \<longleftrightarrow> merge_data (cache_get k c t) d (key_field_of k) = Inl e"
  by (cases k) (auto simp: cache_defs split: sum.splits)

lemma cache_set_frame:
  "cache_set k t d c = Inr c' \<Longrightarrow> (k', t') \<noteq> (k, t) \<Longrightarrow> cache_get k' c' t' = cache_get k' c t'"
  by (cases k; cases k') (auto simp: cache_defs split: sum.splits)


lemma cache_init_get: "cache_get k Cache_init t = None"
  by (cases k) (simp_all add: cache_defs Cache_init_def)

lemma cache_set_keeps_unique:
  assumes inv: "\<forall>k' t' items. cache_get k' c t' = Some items \<longrightarrow> unique_keys (key_field_of k') items"
    and d: "unique_keys (key_field_of k) d"
    and s: "cache_set k t d c = Inr c'"
  shows "\<forall>k' t' items. cache_get k' c' t' = Some items \<longrightarrow> unique_keys (key_field_of k') items"
proof (intro allI impI)
  fix k' t' items
  assume g: "cache_get k' c' t' = Some items"
  from cache_set_Inr[OF s] obtain m where
    m: "merge_data (cache_get k c t) d (key_field_of k) = Inr m" and gm: "cache_get k c' t = Some m"
    by blast
  show "unique_keys (key_field_of k') items"
  proof (cases "(k', t') = (k, t)")
    case True
    then have "items = m" using g gm by simp
    moreover have "unique_keys (key_field_of k) m"
      using inv by (intro merge_data_unique[OF m d]) blast
    ultimately show ?thesis using True by simp
  next
    case False
    then show ?thesis using cache_set_frame[OF s False] g inv by simp
  qed
qed

lemma run_sets_keeps_unique:
  assumes "\<forall>(k, t, d) \<in> set ops. unique_keys (key_field_of k) d"
    and "run_sets ops c = Inr c'"
    and "\<forall>k' t' items. cache_get k' c t' = Some items \<longrightarrow> unique_keys (key_field_of k') items"
  shows "\<forall>k' t' items. cache_get k' c' t' = Some items \<longrightarrow> unique_keys (key_field_of k') items"
  using assms
proof (induction ops arbitrary: c)
  case Nil
  then show ?case by simp
next
  case (Cons op ops)
  obtain k t d where op: "op = (k, t, d)" by (cases op)
  from Cons.prems(2) op obtain c1 where
    c1: "cache_set k t d c = Inr c1" and rest: "run_sets ops c1 = Inr c'"
    by (auto split: sum.splits)
  have "unique_keys (key_field_of k) d" using Cons.prems(1) op by simp
  with Cons.prems(3) have "\<forall>k' t' items. cache_get k' c1 t' = Some items \<longrightarrow> unique_keys (key_field_of k') items"
    using c1 by (rule cache_set_keeps_unique)
  moreover have "\<forall>(k, t, d) \<in> set ops. unique_keys (key_field_of k) d" using Cons.prems(1) by simp
  ultimately show ?case using Cons.IH rest by blast
qed

text \<open>
  Claim C2, as amended.  Start from an empty cache and run any sequence of set operations
  whose record lists each have pairwise different uniqueness-field values.  After one more
  such set operation that returns, no two stored records of any entry share a
  uniqueness-field value, and the entry written holds the records it held before, in
  their order, followed by the new records whose uniqueness value was not stored yet, in
  their order.
\<close>

theorem cache_sets_unique_and_appended:
  assumes "\<forall>(k, t, d) \<in> set ops. unique_keys (key_field_of k) d"
    and "run_sets ops Cache_init = Inr c"
    and "unique_keys (key_field_of k) new_data"
    and "cache_set k ticker new_data c = Inr c'"
  shows "(\<forall>k' t' items. cache_get k' c' t' = Some items \<longrightarrow> unique_keys (key_field_of k') items) \<and>
         cache_get k c' ticker =
           Some ((case cache_get k c ticker of None \<Rightarrow> [] | Some old \<Rightarrow> old) @
                 filter (\<lambda>item. map_of item (key_field_of k) \<notin>
                           set (key_values (key_field_of k)
                                  (case cache_get k c ticker of None \<Rightarrow> [] | Some old \<Rightarrow> old)))
                        new_data)"
proof
  have "\<forall>k' t' items. cache_get k' c t' = Some items \<longrightarrow> unique_keys (key_field_of k') items"
    using assms(1,2) by (rule run_sets_keeps_unique) (simp add: cache_init_get)
  then show "\<forall>k' t' items. cache_get k' c' t' = Some items \<longrightarrow> unique_keys (key_field_of k') items"
    using assms(3,4) by (rule cache_set_keeps_unique)
next
  from cache_set_Inr[OF assms(4)] obtain m where
    m: "merge_data (cache_get k c ticker) new_data (key_field_of k) = Inr m"
    and gm: "cache_get k c' ticker = Some m"
    by blast
  show "cache_get k c' ticker =
           Some ((case cache_get k c ticker of None \<Rightarrow> [] | Some old \<Rightarrow> old) @
                 filter (\<lambda>item. map_of item (key_field_of k) \<notin>
                           set (key_values (key_field_of k)
                                  (case cache_get k c ticker of None \<Rightarrow> [] | Some old \<Rightarrow> old)))
                        new_data)"
    using merge_data_success[OF m] gm by simp
qed

lemmas day_defs = day1_def day2_def day2'_def day3_def no_time_def

lemma first_set: "run_sets [(Prices, ''AAA'', [day1, day2])] Cache_init
   = Inr (Cache_init\<lparr>prices_cache := [''AAA'' \<mapsto> [day1, day2]]\<rparr>)"
  by (simp add: cache_defs merge_data_def Cache_init_def)

lemma second_set: "cache_set Prices ''AAA'' [day2', day3] (Cache_init\<lparr>prices_cache := [''AAA'' \<mapsto> [day1, day2]]\<rparr>)
   = Inr (Cache_init\<lparr>prices_cache := [''AAA'' \<mapsto> [day1, day2, day3]]\<rparr>)"
  by (simp add: cache_defs merge_data_def Cache_init_def day_defs)

text \<open>
  The amended claim C2 at a concrete cache: two days are stored, then the second day again
  and a third day; only the third day is added, at the end.
\<close>

theorem cache_sets_unique_and_appended_witness:
  "unique_keys ''time'' [day1, day2, day3] \<and>
   cache_get Prices (Cache_init\<lparr>prices_cache := [''AAA'' \<mapsto> [day1, day2, day3 :: string row]]\<rparr>) ''AAA''
     = Some ([day1, day2] @ [day3])"
  using cache_sets_unique_and_appended [of "[(Prices, ''AAA'', [day1, day2])]"
     "Cache_init\<lparr>prices_cache := [''AAA'' \<mapsto> [day1, day2]]\<rparr>" Prices "[day2', day3]" "''AAA''"
     "Cache_init\<lparr>prices_cache := [''AAA'' \<mapsto> [day1, day2, day3]]\<rparr>", OF _ first_set _ second_set]
  by (simp add: unique_keys_def key_values_def day_defs cache_defs)

text \<open>
  Claim C2 as stated fails: a list of new records is compared with the stored records only,
  never with itself, so two new records for the same day are both stored.
\<close>

theorem cache_sets_unique_counterexample:
  "run_sets [(Prices, ''AAA'', [day1]), (Prices, ''AAA'', [day2, day2'])] Cache_init
     = Inr (Cache_init\<lparr>prices_cache := [''AAA'' \<mapsto> [day1, day2, day2']]\<rparr>) \<and>
   \<not> unique_keys ''time'' [day1, day2, day2']"
  by (simp add: cache_defs merge_data_def Cache_init_def day_defs unique_keys_def key_values_def)


text \<open>
  Claim C3.  When every new record has the uniqueness field, calling a set operation twice
  with the same ticker and the same records gives what calling it once gives: the same
  cache when the first call returns, the same exception when it raises.
\<close>

theorem cache_set_idempotent:
  assumes "has_key (key_field_of k) new_data"
  shows "(case cache_set k ticker new_data c of
            Inl e \<Rightarrow> Inl e
          | Inr c' \<Rightarrow> cache_set k ticker new_data c') = cache_set k ticker new_data c"
proof (cases "cache_set k ticker new_data c")
  case (Inl e)
  then show ?thesis by simp
next
  case (Inr c')
  from cache_set_Inr[OF Inr] obtain m where
    m: "merge_data (cache_get k c ticker) new_data (key_field_of k) = Inr m"
    and gm: "cache_get k c' ticker = Some m"
    by blast
  have again: "merge_data (Some m) new_data (key_field_of k) = Inr m"
    using assms m by (rule merge_data_again)
  have "cache_set k ticker new_data c' = Inr c'"
    using Inr m gm again
    by (cases k) (auto simp: cache_defs split: sum.splits)
  then show ?thesis using Inr by simp
qed

text \<open>
  Claim C3 at a concrete cache: the second call changes nothing.
\<close>

theorem cache_set_idempotent_witness:
  "has_key (key_field_of Prices) [day2', day3] \<and>
   (case cache_set Prices ''AAA'' [day2', day3] (Cache_init\<lparr>prices_cache := [''AAA'' \<mapsto> [day1, day2]]\<rparr>) of
      Inl e \<Rightarrow> Inl e
    | Inr c' \<Rightarrow> cache_set Prices ''AAA'' [day2', day3] c')
   = Inr (Cache_init\<lparr>prices_cache := [''AAA'' \<mapsto> [day1, day2, day3]]\<rparr>)"
proof -
  have h: "has_key (key_field_of Prices) [day2', day3]"
    by (simp add: has_key_def day_defs)
  show ?thesis
    using h cache_set_idempotent [OF h, of "''AAA''" "Cache_init\<lparr>prices_cache := [''AAA'' \<mapsto> [day1, day2]]\<rparr>"]
    by (simp only: second_set simp_thms)
qed

text \<open>
  Claim C7, as amended.  When a non-empty sequence is already cached for the ticker and a
  record of that sequence or of the new data lacks the uniqueness field, the set operation
  raises \<open>KeyError\<close>.  When nothing or an empty sequence is cached, the new data is
  stored as it is, whatever its records contain.
\<close>

theorem cache_set_missing_key:
  "(cache_get k c ticker = Some (x # xs) \<and>
      (\<not> has_key (key_field_of k) (x # xs) \<or> \<not> has_key (key_field_of k) new_data)
      \<longrightarrow> cache_set k ticker new_data c = Inl KeyError) \<and>
   (cache_get k c ticker = None \<or> cache_get k c ticker = Some []
      \<longrightarrow> (\<exists>c'. cache_set k ticker new_data c = Inr c' \<and> cache_get k c' ticker = Some new_data))"
proof (intro conjI impI)
  assume a: "cache_get k c ticker = Some (x # xs) \<and>
      (\<not> has_key (key_field_of k) (x # xs) \<or> \<not> has_key (key_field_of k) new_data)"
  then have "merge_data (cache_get k c ticker) new_data (key_field_of k) = Inl KeyError"
    using merge_data_missing[of "key_field_of k" x xs new_data] by simp
  then show "cache_set k ticker new_data c = Inl KeyError"
    by (simp add: cache_set_Inl)
next
  assume "cache_get k c ticker = None \<or> cache_get k c ticker = Some []"
  then have "merge_data (cache_get k c ticker) new_data (key_field_of k) = Inr new_data"
    by (rule merge_data_unchecked)
  then show "\<exists>c'. cache_set k ticker new_data c = Inr c' \<and> cache_get k c' ticker = Some new_data"
    by (cases k) (simp_all add: cache_defs)
qed

text \<open>
  The amended claim C7 at concrete caches: a record without \<open>time\<close> is refused for a
  ticker that has prices, and stored for a ticker that has none.
\<close>

theorem cache_set_missing_key_witness:
  "cache_set Prices ''AAA'' [no_time] (Cache_init\<lparr>prices_cache := [''AAA'' \<mapsto> [day1, day2]]\<rparr>) = Inl KeyError \<and>
   (\<exists>c'. cache_set Prices ''AAA'' [no_time] (Cache_init\<lparr>prices_cache := [''BBB'' \<mapsto> [day1, day2]]\<rparr>) = Inr c' \<and>
      cache_get Prices c' ''AAA'' = Some [no_time])"
  using cache_set_missing_key [of Prices "Cache_init\<lparr>prices_cache := [''AAA'' \<mapsto> [day1, day2]]\<rparr>" "''AAA''"
      day1 "[day2]" "[no_time]"]
    cache_set_missing_key [of Prices "Cache_init\<lparr>prices_cache := [''BBB'' \<mapsto> [day1, day2]]\<rparr>" "''AAA''"
      day1 "[day2]" "[no_time]"]
  by (simp add: cache_defs has_key_def day_defs)

text \<open>
  Claim C7 as stated fails: on an empty cache a record without the uniqueness field is
  stored and no error is signalled.
\<close>

theorem cache_set_missing_key_counterexample:
  "\<not> has_key (key_field_of Prices) [no_time] \<and>
   cache_set Prices ''AAA'' [no_time] Cache_init
     = Inr (Cache_init\<lparr>prices_cache := [''AAA'' \<mapsto> [no_time]]\<rparr>)"
  by (simp add: cache_defs merge_data_def Cache_init_def has_key_def day_defs)

section \<open>Properties of the workflow graph\<close>

lemma graph_ops [simp]:
  "nodes (add_edge a b g) = nodes g"
  "edges (add_edge a b g) = insert (a, b) (edges g)"
  "entry_point (add_edge a b g) = entry_point g"
  "nodes (set_entry_point k g) = nodes g"
  "edges (set_entry_point k g) = edges g"
  "entry_point (set_entry_point k g) = Some k"
  "nodes StateGraph = {}" "edges StateGraph = {}" "entry_point StateGraph = None"
  by (simp_all add: add_edge_def set_entry_point_def StateGraph_def)

lemma add_node_Inr:
  "name \<notin> nodes g \<Longrightarrow>
     \<exists>g'. add_node name g = Inr g' \<and> nodes g' = insert name (nodes g) \<and> edges g' = edges g \<and>
          entry_point g' = entry_point g"
  by (simp add: add_node_def)

lemma add_node_Inl: "name \<in> nodes g \<Longrightarrow> add_node name g = Inl ValueError"
  by (simp add: add_node_def)

lemma node_name_inj: "node_name a = node_name b \<longleftrightarrow> a = b"
  by (simp add: node_name_def)

lemma node_name_not_fixed:
  "node_name k \<noteq> ''start_node''" "node_name k \<noteq> ''portfolio_manager''" "node_name k \<noteq> END"
proof -
  have l: "last (node_name k) = CHR ''t''" by (simp add: node_name_def)
  show "node_name k \<noteq> ''start_node''" using l by auto
  show "node_name k \<noteq> ''portfolio_manager''" using l by auto
  show "node_name k \<noteq> END" using l by (auto simp: END_def)
qed

lemma node_name_risk: "node_name k = ''risk_management_agent'' \<longleftrightarrow> k = ''risk_management''"
proof -
  have "''risk_management_agent'' = node_name ''risk_management''" by (simp add: node_name_def)
  then show ?thesis by (simp only: node_name_inj)
qed

lemma add_analysts_Inr:
  assumes "distinct use" and "node_name ` set use \<inter> nodes w = {}"
  shows "\<exists>w'. add_analysts use w = Inr w' \<and> nodes w' = nodes w \<union> node_name ` set use \<and>
           edges w' = edges w \<union> (\<lambda>a. (''start_node'', a)) ` node_name ` set use \<and>
           entry_point w' = entry_point w"
  using assms
proof (induction use arbitrary: w)
  case Nil
  then show ?case by simp
next
  case (Cons k ks)
  have fresh: "node_name k \<notin> nodes w" using Cons.prems(2) by auto
  from add_node_Inr[OF fresh] obtain g' where
    g': "add_node (node_name k) w = Inr g'" "nodes g' = insert (node_name k) (nodes w)"
        "edges g' = edges w" "entry_point g' = entry_point w"
    by (elim exE conjE)
  let ?w1 = "add_edge ''start_node'' (node_name k) g'"
  have d: "distinct ks" using Cons.prems(1) by simp
  have "node_name k \<notin> node_name ` set ks"
    using Cons.prems(1) by (auto simp: node_name_inj)
  then have disj: "node_name ` set ks \<inter> nodes ?w1 = {}"
    using Cons.prems(2) g'(2) by auto
  obtain w' where
    w: "add_analysts ks ?w1 = Inr w' \<and> nodes w' = nodes ?w1 \<union> node_name ` set ks \<and>
        edges w' = edges ?w1 \<union> (\<lambda>a. (''start_node'', a)) ` node_name ` set ks \<and>
        entry_point w' = entry_point ?w1"
    using Cons.IH[OF d disj] ..
  have 1: "add_analysts (k # ks) w = Inr w'" using g'(1) w by simp
  have 2: "nodes w' = nodes w \<union> node_name ` set (k # ks)" using w g'(2) by simp
  have 3: "edges w' = edges w \<union> (\<lambda>a. (''start_node'', a)) ` node_name ` set (k # ks)"
    using w g'(3) by simp
  have 4: "entry_point w' = entry_point w" using w g'(4) by simp
  show ?case
    by (rule exI[of _ w']) (simp only: 1 2 3 4 simp_thms)
qed

lemma add_analysts_Inl:
  assumes "\<not> distinct use \<or> node_name ` set use \<inter> nodes w \<noteq> {}"
  shows "add_analysts use w = Inl ValueError"
  using assms
proof (induction use arbitrary: w)
  case Nil
  then show ?case by simp
next
  case (Cons k ks)
  show ?case
  proof (cases "node_name k \<in> nodes w")
    case True
    then show ?thesis by (simp add: add_node_Inl)
  next
    case False
    from add_node_Inr[OF False] obtain g' where
      g': "add_node (node_name k) w = Inr g'" "nodes g' = insert (node_name k) (nodes w)"
      by blast
    let ?w1 = "add_edge ''start_node'' (node_name k) g'"
    have "\<not> distinct ks \<or> node_name ` set ks \<inter> nodes ?w1 \<noteq> {}"
    proof (cases "distinct ks")
      case False
      then show ?thesis by simp
    next
      case True
      show ?thesis
      proof (cases "k \<in> set ks")
        case True
        then have "node_name k \<in> node_name ` set ks \<inter> nodes ?w1" using g'(2) by simp
        then show ?thesis by blast
      next
        case False
        then have "node_name ` set (k # ks) \<inter> nodes w \<noteq> {}"
          using Cons.prems \<open>distinct ks\<close> by simp
        then have "node_name ` set ks \<inter> nodes w \<noteq> {}"
          using \<open>node_name k \<notin> nodes w\<close> by auto
        then show ?thesis using g'(2) by auto
      qed
    qed
    from Cons.IH[OF this] show ?thesis using g'(1) by simp
  qed
qed


lemma fold_risk_nodes:
  "nodes (fold (\<lambda>agent_key w. add_edge (node_name agent_key) ''risk_management_agent'' w) use g) = nodes g"
  by (induction use arbitrary: g) auto

lemma fold_risk_edges:
  "edges (fold (\<lambda>agent_key w. add_edge (node_name agent_key) ''risk_management_agent'' w) use g)
   = edges g \<union> (\<lambda>a. (a, ''risk_management_agent'')) ` node_name ` set use"
  by (induction use arbitrary: g) auto

lemma fold_risk_entry:
  "entry_point (fold (\<lambda>agent_key w. add_edge (node_name agent_key) ''risk_management_agent'' w) use g) = entry_point g"
  by (induction use arbitrary: g) auto

lemma fixed_distinct:
  "''start_node'' \<noteq> ''risk_management_agent''" "''start_node'' \<noteq> ''portfolio_manager''"
  "''risk_management_agent'' \<noteq> ''portfolio_manager''" "''risk_management_agent'' \<noteq> ''start_node''"
  "''portfolio_manager'' \<noteq> ''start_node''" "''portfolio_manager'' \<noteq> ''risk_management_agent''"
  "''start_node'' \<noteq> END" "''risk_management_agent'' \<noteq> END" "''portfolio_manager'' \<noteq> END"
  by (simp_all add: END_def)

lemma build_raises:
  assumes "\<not> distinct (agents_to_use reg sel) \<or> ''risk_management'' \<in> set (agents_to_use reg sel)"
  shows "build_agent_workflow reg sel = Inl ValueError"
proof -
  let ?use = "agents_to_use reg sel"
  obtain s0 where s0: "add_node ''start_node'' StateGraph = Inr s0" "nodes s0 = {''start_node''}"
    using add_node_Inr[of "''start_node''" StateGraph] by auto
  show ?thesis
  proof (cases "distinct ?use")
    case False
    then have "add_analysts ?use s0 = Inl ValueError" by (simp add: add_analysts_Inl)
    then show ?thesis by (simp add: build_agent_workflow_def Let_def s0(1))
  next
    case True
    then have rm: "''risk_management'' \<in> set ?use" using assms by blast
    have "node_name ` set ?use \<inter> nodes s0 = {}"
      unfolding s0(2) using node_name_not_fixed(1) by blast
    from add_analysts_Inr[OF True this] obtain w1 where
      w1: "add_analysts ?use s0 = Inr w1" "nodes w1 = nodes s0 \<union> node_name ` set ?use"
      by (elim exE conjE)
    have "node_name ''risk_management'' \<in> nodes w1" unfolding w1(2) using rm by blast
    then have "''risk_management_agent'' \<in> nodes w1" by (simp add: node_name_def)
    then have "add_node ''risk_management_agent'' w1 = Inl ValueError" by (rule add_node_Inl)
    then show ?thesis by (simp add: build_agent_workflow_def Let_def s0(1) w1(1))
  qed
qed

lemma build_returns:
  assumes "distinct (agents_to_use reg sel)" and "''risk_management'' \<notin> set (agents_to_use reg sel)"
  shows "build_agent_workflow reg sel = Inr (workflow_graph (agents_to_use reg sel))"
proof -
  let ?use = "agents_to_use reg sel"
  let ?A = "node_name ` set ?use"
  obtain s0 where s0: "add_node ''start_node'' StateGraph = Inr s0" "nodes s0 = {''start_node''}"
      "edges s0 = {}" "entry_point s0 = None"
    using add_node_Inr[of "''start_node''" StateGraph] by auto
  have "?A \<inter> nodes s0 = {}"
    unfolding s0(2) using node_name_not_fixed(1) by blast
  from add_analysts_Inr[OF assms(1) this] obtain w1 where
    w1: "add_analysts ?use s0 = Inr w1" "nodes w1 = nodes s0 \<union> ?A"
        "edges w1 = edges s0 \<union> (\<lambda>a. (''start_node'', a)) ` ?A" "entry_point w1 = entry_point s0"
    by (elim exE conjE)
  have "''risk_management_agent'' \<notin> ?A"
  proof
    assume "''risk_management_agent'' \<in> ?A"
    then obtain k where "k \<in> set ?use" "node_name k = ''risk_management_agent''" by auto
    then show False using assms(2) by (simp only: node_name_risk)
  qed
  then have "''risk_management_agent'' \<notin> nodes w1"
    unfolding w1(2) s0(2) using fixed_distinct by blast
  from add_node_Inr[OF this] obtain w2 where
    w2: "add_node ''risk_management_agent'' w1 = Inr w2"
        "nodes w2 = insert ''risk_management_agent'' (nodes w1)"
        "edges w2 = edges w1" "entry_point w2 = entry_point w1"
    by (elim exE conjE)
  have "''portfolio_manager'' \<notin> ?A" using node_name_not_fixed(2) by (metis imageE)
  then have "''portfolio_manager'' \<notin> nodes w2"
    unfolding w2(2) w1(2) s0(2) using fixed_distinct by blast
  from add_node_Inr[OF this] obtain w3 where
    w3: "add_node ''portfolio_manager'' w2 = Inr w3"
        "nodes w3 = insert ''portfolio_manager'' (nodes w2)"
        "edges w3 = edges w2" "entry_point w3 = entry_point w2"
    by (elim exE conjE)
  let ?final = "set_entry_point ''start_node''
      (add_edge ''portfolio_manager'' END
        (add_edge ''risk_management_agent'' ''portfolio_manager''
          (if ?use = []
           then add_edge ''start_node'' ''risk_management_agent''
                  (fold (\<lambda>agent_key w. add_edge (node_name agent_key) ''risk_management_agent'' w) ?use w3)
           else fold (\<lambda>agent_key w. add_edge (node_name agent_key) ''risk_management_agent'' w) ?use w3)))"
  have b: "build_agent_workflow reg sel = Inr ?final"
    by (simp add: build_agent_workflow_def Let_def s0(1) w1(1) w2(1) w3(1))
  have n: "nodes ?final = nodes (workflow_graph ?use)"
    by (simp add: workflow_graph_def fold_risk_nodes w3(2) w2(2) w1(2) s0(2)) blast
  have e: "edges ?final = edges (workflow_graph ?use)"
    by (simp add: workflow_graph_def fold_risk_edges w3(3) w2(3) w1(3) s0(3)) blast
  have p: "entry_point ?final = entry_point (workflow_graph ?use)"
    by (simp add: workflow_graph_def)
  have "?final = workflow_graph ?use"
    using n e p by (rule graph.equality) simp
  then show ?thesis using b by simp
qed


lemma workflow_nodes:
  "nodes (workflow_graph use) =
     {''start_node'', ''risk_management_agent'', ''portfolio_manager''} \<union> node_name ` set use"
  by (simp add: workflow_graph_def)

lemma workflow_edges:
  "edges (workflow_graph use) =
     (\<lambda>a. (''start_node'', a)) ` node_name ` set use
     \<union> (\<lambda>a. (a, ''risk_management_agent'')) ` node_name ` set use
     \<union> (if use = [] then {(''start_node'', ''risk_management_agent'')} else {})
     \<union> {(''risk_management_agent'', ''portfolio_manager''), (''portfolio_manager'', END)}"
  by (simp add: workflow_graph_def)

lemma workflow_entry: "entry_point (workflow_graph use) = Some ''start_node''"
  by (simp add: workflow_graph_def)

lemma successors_iff: "b \<in> successors g n \<longleftrightarrow> (n, b) \<in> edges g"
  by (force simp: successors_def)

lemma predecessors_iff: "a \<in> predecessors g n \<longleftrightarrow> (a, n) \<in> edges g"
  by (force simp: predecessors_def)

lemma analysis_node_fresh:
  assumes "''risk_management'' \<notin> set use" and "a \<in> node_name ` set use"
  shows "a \<noteq> ''start_node''" "a \<noteq> ''risk_management_agent''" "a \<noteq> ''portfolio_manager''" "a \<noteq> END"
proof -
  from assms(2) obtain k where k: "k \<in> set use" and a: "a = node_name k" by blast
  then have "k \<noteq> ''risk_management''" using assms(1) by blast
  then show "a \<noteq> ''risk_management_agent''" unfolding a by (simp only: node_name_risk not_False_eq_True)
  show "a \<noteq> ''start_node''" "a \<noteq> ''portfolio_manager''" "a \<noteq> END"
    unfolding a by (rule node_name_not_fixed)+
qed


lemma edge_cases:
  assumes "(a, b) \<in> edges (workflow_graph use)"
  shows "(a = ''start_node'' \<and> b \<in> node_name ` set use)
    \<or> (a \<in> node_name ` set use \<and> b = ''risk_management_agent'')
    \<or> (a = ''start_node'' \<and> b = ''risk_management_agent'' \<and> use = [])
    \<or> (a = ''risk_management_agent'' \<and> b = ''portfolio_manager'')
    \<or> (a = ''portfolio_manager'' \<and> b = END)"
proof -
  let ?A = "node_name ` set use"
  from assms have "(a, b) \<in> (\<lambda>a. (''start_node'', a)) ` ?A
     \<or> (a, b) \<in> (\<lambda>a. (a, ''risk_management_agent'')) ` ?A
     \<or> (a, b) \<in> (if use = [] then {(''start_node'', ''risk_management_agent'')} else {})
     \<or> (a, b) \<in> {(''risk_management_agent'', ''portfolio_manager''), (''portfolio_manager'', END)}"
    unfolding workflow_edges Un_iff by blast
  then show ?thesis
  proof (elim disjE)
    assume "(a, b) \<in> (\<lambda>a. (''start_node'', a)) ` ?A"
    then show ?thesis by blast
  next
    assume "(a, b) \<in> (\<lambda>a. (a, ''risk_management_agent'')) ` ?A"
    then show ?thesis by blast
  next
    assume "(a, b) \<in> (if use = [] then {(''start_node'', ''risk_management_agent'')} else {})"
    then have "a = ''start_node'' \<and> b = ''risk_management_agent'' \<and> use = []"
      by (cases "use = []") (simp_all only: if_True if_False singleton_iff prod.inject empty_iff simp_thms)
    then show ?thesis by blast
  next
    assume "(a, b) \<in> {(''risk_management_agent'', ''portfolio_manager''), (''portfolio_manager'', END)}"
    then have "(a = ''risk_management_agent'' \<and> b = ''portfolio_manager'') \<or> (a = ''portfolio_manager'' \<and> b = END)"
      by (simp only: insert_iff prod.inject empty_iff simp_thms)
    then show ?thesis by blast
  qed
qed

lemma edge_intros:
  "k \<in> set use \<Longrightarrow> (''start_node'', node_name k) \<in> edges (workflow_graph use)"
  "k \<in> set use \<Longrightarrow> (node_name k, ''risk_management_agent'') \<in> edges (workflow_graph use)"
  "use = [] \<Longrightarrow> (''start_node'', ''risk_management_agent'') \<in> edges (workflow_graph use)"
  "(''risk_management_agent'', ''portfolio_manager'') \<in> edges (workflow_graph use)"
  "(''portfolio_manager'', END) \<in> edges (workflow_graph use)"
  unfolding workflow_edges Un_iff by (blast, blast, simp only: if_True singleton_iff simp_thms, blast, blast)


lemma rank_fixed:
  "rank ''start_node'' = 4" "rank ''risk_management_agent'' = 2"
  "rank ''portfolio_manager'' = 1" "rank END = 0"
  by (simp_all add: rank_def END_def)

lemma rank_analysis:
  assumes "''risk_management'' \<notin> set use" and "a \<in> node_name ` set use"
  shows "rank a = 3"
  unfolding rank_def using analysis_node_fresh[OF assms]
  by (simp only: if_False)

lemma build_acyclic:
  assumes "''risk_management'' \<notin> set use"
  shows "acyclic (edges (workflow_graph use))"
proof (rule acyclicI_order[where f = rank])
  fix a b
  assume "(a, b) \<in> edges (workflow_graph use)"
  from edge_cases[OF this] show "rank b < rank a"
  proof (elim disjE conjE)
    assume "a = ''start_node''" "b \<in> node_name ` set use"
    then show ?thesis using rank_analysis[OF assms, of b] by (simp add: rank_fixed)
  next
    assume "a \<in> node_name ` set use" "b = ''risk_management_agent''"
    then show ?thesis using rank_analysis[OF assms, of a] by (simp add: rank_fixed)
  next
    assume "a = ''start_node''" "b = ''risk_management_agent''"
    then show ?thesis by (simp add: rank_fixed)
  next
    assume "a = ''risk_management_agent''" "b = ''portfolio_manager''"
    then show ?thesis by (simp add: rank_fixed)
  next
    assume "a = ''portfolio_manager''" "b = END"
    then show ?thesis by (simp add: rank_fixed)
  qed
qed


lemma succ_start:
  assumes "''risk_management'' \<notin> set use"
  shows "successors (workflow_graph use) ''start_node'' =
     (if use = [] then {''risk_management_agent''}
      else node_name ` set use)"
proof (rule set_eqI, unfold successors_iff)
  fix b
  let ?g = "workflow_graph use" and ?A = "node_name ` set use"
  show "((''start_node'', b) \<in> edges ?g) = (b \<in> (if use = [] then {''risk_management_agent''} else ?A))"
  proof (cases "use = []")
    case True
    have "(''start_node'', b) \<in> edges ?g \<Longrightarrow> b = ''risk_management_agent''"
      using edge_cases[of "''start_node''" b use] True by auto
    moreover have "(''start_node'', ''risk_management_agent'') \<in> edges ?g"
      using True by (rule edge_intros)
    ultimately show ?thesis using True by auto
  next
    case False
    have "(''start_node'', b) \<in> edges ?g \<Longrightarrow> b \<in> ?A"
      using edge_cases[of "''start_node''" b use] False analysis_node_fresh(1)[OF assms, of "''start_node''"]
      by auto
    moreover have "b \<in> ?A \<Longrightarrow> (''start_node'', b) \<in> edges ?g"
      using edge_intros(1)[of _ use] by blast
    ultimately show ?thesis using False by auto
  qed
qed


lemma succ_analysis:
  assumes "''risk_management'' \<notin> set use" and "a \<in> node_name ` set use"
  shows "successors (workflow_graph use) a = {''risk_management_agent''}"
proof (rule set_eqI, unfold successors_iff)
  fix b
  note fr = analysis_node_fresh[OF assms]
  have "(a, b) \<in> edges (workflow_graph use) \<Longrightarrow> b = ''risk_management_agent''"
    using edge_cases[of a b use] fr by blast
  moreover have "(a, ''risk_management_agent'') \<in> edges (workflow_graph use)"
    using assms(2) edge_intros(2)[of _ use] by blast
  ultimately show "((a, b) \<in> edges (workflow_graph use)) = (b \<in> {''risk_management_agent''})"
    by blast
qed

lemma succ_risk:
  assumes "''risk_management'' \<notin> set use"
  shows "successors (workflow_graph use) ''risk_management_agent'' = {''portfolio_manager''}"
proof (rule set_eqI, unfold successors_iff)
  fix b
  have "''risk_management_agent'' \<notin> node_name ` set use"
    using analysis_node_fresh(2)[OF assms] by blast
  then have "(''risk_management_agent'', b) \<in> edges (workflow_graph use) \<Longrightarrow> b = ''portfolio_manager''"
    using edge_cases[of "''risk_management_agent''" b use] fixed_distinct by blast
  then show "((''risk_management_agent'', b) \<in> edges (workflow_graph use)) = (b \<in> {''portfolio_manager''})"
    using edge_intros(4)[of use] by blast
qed

lemma succ_portfolio:
  "successors (workflow_graph use) ''portfolio_manager'' = {END}"
proof (rule set_eqI, unfold successors_iff)
  fix b
  have "''portfolio_manager'' \<notin> node_name ` set use"
    using node_name_not_fixed(2) by (metis imageE)
  then have "(''portfolio_manager'', b) \<in> edges (workflow_graph use) \<Longrightarrow> b = END"
    using edge_cases[of "''portfolio_manager''" b use] fixed_distinct by blast
  then show "((''portfolio_manager'', b) \<in> edges (workflow_graph use)) = (b \<in> {END})"
    using edge_intros(5)[of use] by blast
qed

lemma pred_start:
  "predecessors (workflow_graph use) ''start_node'' = {}"
proof (rule set_eqI, unfold predecessors_iff)
  fix a
  have "''start_node'' \<notin> node_name ` set use"
    using node_name_not_fixed(1) by (metis imageE)
  then have "(a, ''start_node'') \<notin> edges (workflow_graph use)"
    using edge_cases[of a "''start_node''" use] fixed_distinct by blast
  then show "((a, ''start_node'') \<in> edges (workflow_graph use)) = (a \<in> {})"
    by blast
qed

lemma pred_END:
  "predecessors (workflow_graph use) END = {''portfolio_manager''}"
proof (rule set_eqI, unfold predecessors_iff)
  fix a
  have "END \<notin> node_name ` set use"
    using node_name_not_fixed(3) by (metis imageE)
  then have "(a, END) \<in> edges (workflow_graph use) \<Longrightarrow> a = ''portfolio_manager''"
    using edge_cases[of a END use] fixed_distinct by metis
  then show "((a, END) \<in> edges (workflow_graph use)) = (a \<in> {''portfolio_manager''})"
    using edge_intros(5)[of use] by blast
qed

lemma pred_nonempty:
  assumes "n \<in> nodes (workflow_graph use)" and "n \<noteq> ''start_node''"
  shows "predecessors (workflow_graph use) n \<noteq> {}"
proof -
  from assms have "n = ''risk_management_agent'' \<or> n = ''portfolio_manager''
      \<or> n \<in> node_name ` set use"
    unfolding workflow_nodes by blast
  then have "\<exists>a. (a, n) \<in> edges (workflow_graph use)"
  proof (elim disjE)
    assume n: "n = ''risk_management_agent''"
    show ?thesis
    proof (cases "use")
      case Nil
      then show ?thesis using edge_intros(3)[of use] n by blast
    next
      case (Cons k ks)
      then have "k \<in> set use" by simp
      then show ?thesis using edge_intros(2)[of k use] n by blast
    qed
  next
    assume "n = ''portfolio_manager''"
    then show ?thesis using edge_intros(4)[of use] by blast
  next
    assume "n \<in> node_name ` set use"
    then show ?thesis using edge_intros(1)[of _ use] by blast
  qed
  then show ?thesis unfolding predecessors_iff[symmetric] by blast
qed


lemma out_degree_start:
  assumes "''risk_management'' \<notin> set use"
  shows "out_degree (workflow_graph use) ''start_node'' =
           (if use = [] then 1 else card (set use))"
proof -
  have inj: "inj_on node_name (set use)"
    by (rule inj_onI) (simp only: node_name_inj)
  show ?thesis
    unfolding out_degree_def succ_start[OF assms]
    by (simp add: card_image[OF inj])
qed




lemma agents_to_use_registered: "set (agents_to_use reg sel) \<subseteq> set reg"
  by (auto simp: agents_to_use_def Let_def split: option.splits)

lemma agents_to_use_distinct:
  assumes "distinct reg" and "sel = None \<or> (\<exists>selected. sel = Some selected \<and> distinct selected)"
  shows "distinct (agents_to_use reg sel)"
  using assms by (auto simp: agents_to_use_def Let_def split: option.splits)

lemma agents_to_use_invalid:
  "selected \<noteq> [] \<Longrightarrow> set selected \<inter> set reg = {} \<Longrightarrow> agents_to_use reg (Some selected) = reg"
  by (auto simp: agents_to_use_def Let_def filter_empty_conv)

lemma build_closed_form:
  "build_agent_workflow reg sel =
     (if distinct (agents_to_use reg sel) \<and> ''risk_management'' \<notin> set (agents_to_use reg sel)
      then Inr (workflow_graph (agents_to_use reg sel)) else Inl ValueError)"
  using build_returns[of reg sel] build_raises[of reg sel] by presburger


text \<open>
  Claim C4.  The registry is a parameter: the keys of a dictionary, so they differ, and
  none is \<open>risk_management\<close>, whose node would be the risk node itself.  Then, with no
  selection (\<open>None\<close>), the builder returns a graph with a node for every registered
  analyst.  For every registry, a selection that is not empty and names no registered
  analyst gives what no selection gives, and the empty selection gives the graph of three
  nodes, without analysts, whose entry node has its edge to the risk node.
\<close>

theorem build_selection_policy:
  "(distinct reg \<and> ''risk_management'' \<notin> set reg \<longrightarrow>
      (\<exists>g. build_agent_workflow reg None = Inr g \<and>
           nodes g = {''start_node'', ''risk_management_agent'', ''portfolio_manager''}
                       \<union> node_name ` set reg)) \<and>
   (selected \<noteq> [] \<and> set selected \<inter> set reg = {} \<longrightarrow>
      build_agent_workflow reg (Some selected) = build_agent_workflow reg None) \<and>
   build_agent_workflow reg (Some []) =
     Inr \<lparr>nodes = {''start_node'', ''risk_management_agent'', ''portfolio_manager''},
          edges = {(''start_node'', ''risk_management_agent''),
                   (''risk_management_agent'', ''portfolio_manager''),
                   (''portfolio_manager'', END)},
          entry_point = Some ''start_node''\<rparr>"
proof (intro conjI impI)
  assume a: "distinct reg \<and> ''risk_management'' \<notin> set reg"
  have u: "agents_to_use reg None = reg" by (simp add: agents_to_use_def)
  have "build_agent_workflow reg None = Inr (workflow_graph reg)"
    using build_returns[of reg None] a unfolding u by blast
  then show "\<exists>g. build_agent_workflow reg None = Inr g \<and>
           nodes g = {''start_node'', ''risk_management_agent'', ''portfolio_manager''}
                       \<union> node_name ` set reg"
    using workflow_nodes[of reg] by blast
next
  assume "selected \<noteq> [] \<and> set selected \<inter> set reg = {}"
  then have "agents_to_use reg (Some selected) = agents_to_use reg None"
    by (simp add: agents_to_use_invalid) (simp add: agents_to_use_def)
  then show "build_agent_workflow reg (Some selected) = build_agent_workflow reg None"
    by (simp only: build_closed_form)
next
  have e: "agents_to_use reg (Some []) = []" by (simp add: agents_to_use_def)
  have "build_agent_workflow reg (Some []) = Inr (workflow_graph [])"
    using build_returns[of reg "Some []"] unfolding e by simp
  moreover have "workflow_graph [] =
     \<lparr>nodes = {''start_node'', ''risk_management_agent'', ''portfolio_manager''},
      edges = {(''start_node'', ''risk_management_agent''),
               (''risk_management_agent'', ''portfolio_manager''),
               (''portfolio_manager'', END)},
      entry_point = Some ''start_node''\<rparr>"
    by (simp add: workflow_graph_def insert_commute)
  ultimately show "build_agent_workflow reg (Some []) =
     Inr \<lparr>nodes = {''start_node'', ''risk_management_agent'', ''portfolio_manager''},
          edges = {(''start_node'', ''risk_management_agent''),
                   (''risk_management_agent'', ''portfolio_manager''),
                   (''portfolio_manager'', END)},
          entry_point = Some ''start_node''\<rparr>"
    by simp
qed

lemma two_analysts_ok: "distinct two_analysts \<and> ''risk_management'' \<notin> set two_analysts"
  by (simp add: two_analysts_def)

text \<open>
  Claim C4 with two registered analysts and a selection of two unknown names.
\<close>

theorem build_selection_policy_witness:
  "build_agent_workflow two_analysts (Some [''momentum'', ''macro''])
     = build_agent_workflow two_analysts None \<and>
   (\<exists>g. build_agent_workflow two_analysts None = Inr g \<and>
        nodes g = {''start_node'', ''risk_management_agent'', ''portfolio_manager''}
                    \<union> node_name ` set two_analysts)"
proof -
  have s: "[''momentum'', ''macro''] \<noteq> [] \<and> set [''momentum'', ''macro''] \<inter> set two_analysts = {}"
    by (simp add: two_analysts_def)
  show ?thesis
    using build_selection_policy [of two_analysts "[''momentum'', ''macro'']"] s two_analysts_ok
    by blast
qed


text \<open>
  Claim C8.  For every registry and every selection, the builder returns a graph exactly
  when the analysts in use are named once each and none is \<open>risk_management\<close>; otherwise
  \<open>add_node\<close> raises.  It does return one for a registry of different keys without
  \<open>risk_management\<close> and a selection that is \<open>None\<close> or names nothing twice.  Every graph it
  returns satisfies: the nodes are the entry node, the risk node, the portfolio node and
  the nodes of the analysts in use; the entry node leads to exactly the analyst nodes, as
  many edges as analysts in use, or to the risk node alone when there is none; every
  analyst node leads to the risk node and nowhere else; the risk node leads to the
  portfolio node and nowhere else, and the portfolio node to the end marker.  The entry
  point is the entry node, no edge enters it, and every other node is entered by an edge
  (single entry); only the portfolio node leads to the end marker (single exit); the
  edges have no cycle.
\<close>

theorem build_graph_invariants:
  "((\<exists>g. build_agent_workflow reg sel = Inr g) \<longleftrightarrow>
      distinct (agents_to_use reg sel) \<and> ''risk_management'' \<notin> set (agents_to_use reg sel)) \<and>
   (distinct reg \<and> ''risk_management'' \<notin> set reg \<and>
      (sel = None \<or> (\<exists>selected. sel = Some selected \<and> distinct selected)) \<longrightarrow>
      (\<exists>g. build_agent_workflow reg sel = Inr g)) \<and>
   (build_agent_workflow reg sel = Inr g \<longrightarrow>
      nodes g = {''start_node'', ''risk_management_agent'', ''portfolio_manager''}
                  \<union> node_name ` set (agents_to_use reg sel) \<and>
      successors g ''start_node'' =
        (if agents_to_use reg sel = [] then {''risk_management_agent''}
         else node_name ` set (agents_to_use reg sel)) \<and>
      out_degree g ''start_node'' =
        (if agents_to_use reg sel = [] then 1 else length (agents_to_use reg sel)) \<and>
      (\<forall>a \<in> node_name ` set (agents_to_use reg sel). successors g a = {''risk_management_agent''}) \<and>
      successors g ''risk_management_agent'' = {''portfolio_manager''} \<and>
      successors g ''portfolio_manager'' = {END} \<and>
      entry_point g = Some ''start_node'' \<and>
      predecessors g ''start_node'' = {} \<and>
      (\<forall>n \<in> nodes g. n \<noteq> ''start_node'' \<longrightarrow> predecessors g n \<noteq> {}) \<and>
      predecessors g END = {''portfolio_manager''} \<and>
      acyclic (edges g))"
proof (intro conjI impI)
  let ?use = "agents_to_use reg sel"
  show "(\<exists>g. build_agent_workflow reg sel = Inr g) \<longleftrightarrow>
      distinct ?use \<and> ''risk_management'' \<notin> set ?use"
    by (simp add: build_closed_form)
  show "\<exists>g. build_agent_workflow reg sel = Inr g"
    if "distinct reg \<and> ''risk_management'' \<notin> set reg \<and>
      (sel = None \<or> (\<exists>selected. sel = Some selected \<and> distinct selected))"
  proof -
    have "distinct ?use" using that agents_to_use_distinct by blast
    moreover have "''risk_management'' \<notin> set ?use" using that agents_to_use_registered by blast
    ultimately show ?thesis by (simp add: build_closed_form)
  qed
  assume b: "build_agent_workflow reg sel = Inr g"
  then have d: "distinct ?use" and r: "''risk_management'' \<notin> set ?use"
    and g: "g = workflow_graph ?use"
    by (auto simp: build_closed_form split: if_splits)
  show "nodes g = {''start_node'', ''risk_management_agent'', ''portfolio_manager''}
                  \<union> node_name ` set ?use"
    unfolding g by (rule workflow_nodes)
  show "successors g ''start_node'' =
        (if ?use = [] then {''risk_management_agent''} else node_name ` set ?use)"
    unfolding g using r by (rule succ_start)
  show "out_degree g ''start_node'' = (if ?use = [] then 1 else length ?use)"
    unfolding g out_degree_start[OF r] using d by (simp add: distinct_card)
  show "\<forall>a \<in> node_name ` set ?use. successors g a = {''risk_management_agent''}"
    unfolding g using succ_analysis[OF r] by blast
  show "successors g ''risk_management_agent'' = {''portfolio_manager''}"
    unfolding g using r by (rule succ_risk)
  show "successors g ''portfolio_manager'' = {END}"
    unfolding g by (rule succ_portfolio)
  show "entry_point g = Some ''start_node''"
    unfolding g by (rule workflow_entry)
  show "predecessors g ''start_node'' = {}"
    unfolding g by (rule pred_start)
  show "\<forall>n \<in> nodes g. n \<noteq> ''start_node'' \<longrightarrow> predecessors g n \<noteq> {}"
    unfolding g using pred_nonempty by blast
  show "predecessors g END = {''portfolio_manager''}"
    unfolding g by (rule pred_END)
  show "acyclic (edges g)"
    unfolding g using r by (rule build_acyclic)
qed

lemma use_technicals: "agents_to_use two_analysts (Some [''technicals'', ''momentum'']) = [''technicals'']"
  by (simp add: agents_to_use_def two_analysts_def)

lemma build_technicals:
  "build_agent_workflow two_analysts (Some [''technicals'', ''momentum''])
     = Inr (workflow_graph [''technicals''])"
  by (simp add: build_closed_form use_technicals)

text \<open>
  Claim C8 with two registered analysts and a selection of one of them and an unknown
  name.
\<close>

theorem build_graph_invariants_witness:
  "build_agent_workflow two_analysts (Some [''technicals'', ''momentum''])
     = Inr (workflow_graph [''technicals'']) \<and>
   successors (workflow_graph [''technicals'']) ''start_node'' = {''technicals_agent''} \<and>
   out_degree (workflow_graph [''technicals'']) ''start_node'' = 1 \<and>
   successors (workflow_graph [''technicals'']) ''technicals_agent'' = {''risk_management_agent''} \<and>
   acyclic (edges (workflow_graph [''technicals'']))"
  using build_graph_invariants [of two_analysts "Some [''technicals'', ''momentum'']"
      "workflow_graph [''technicals'']"] build_technicals
  unfolding use_technicals
  by (simp add: node_name_def)

text \<open>A selection that names an analyst twice: the second \<open>add_node\<close> raises.\<close>

lemma build_repeated_name_raises:
  "build_agent_workflow two_analysts (Some [''technicals'', ''technicals'']) = Inl ValueError"
  by (simp add: build_closed_form agents_to_use_def two_analysts_def)

section \<open>Properties of the language-model helpers\<close>

lemma default_value_usable:
  "usable annotation \<Longrightarrow> \<exists>v. default_value annotation = Inr v"
  unfolding usable_def
  by (cases annotation) (auto split: option.splits list.splits)

lemma default_values_map:
  assumes "\<forall>(n, a) \<in> set fs. usable a"
  shows "default_values fs = Inr (map (\<lambda>(n, a). (n, projr (default_value a))) fs)"
  using assms
proof (induction fs)
  case Nil
  then show ?case by simp
next
  case (Cons f fs)
  obtain n a where f: "f = (n, a)" by (cases f)
  from Cons.prems f have "usable a" by simp
  then obtain v where v: "default_value a = Inr v" using default_value_usable by blast
  have "default_values fs = Inr (map (\<lambda>(n, a). (n, projr (default_value a))) fs)"
    using Cons by simp
  then show ?case using v f by (simp del: default_value.simps)
qed

lemma map_of_defaults:
  assumes "distinct (map fst fs)" and "(n, a) \<in> set fs"
  shows "map_of (map (\<lambda>(n, a). (n, projr (default_value a))) fs) n = Some (projr (default_value a))"
  using assms
  by (induction fs) (auto simp del: default_value.simps simp: rev_image_eqI)


text \<open>
  Claim C5, as amended.  For a model class whose field names differ and whose annotations
  have a first argument wherever the default reads one, the schema default is the model
  class called with a value for every field: the text "Error in analysis, using default"
  for a \<open>str\<close> field, \<open>0.0\<close> for a \<open>float\<close> field, \<open>0\<close> for an \<open>int\<close> field, an empty
  dictionary for a \<open>dict[...]\<close> field, the first option for a \<open>Literal[...]\<close> field, and
  \<open>None\<close> for a field annotated with any other plain class.
\<close>

theorem default_values_by_kind:
  assumes "distinct (map fst (model_fields model_class))"
    and "\<forall>(n, a) \<in> set (model_fields model_class). usable a"
    and "(field_name, annotation) \<in> set (model_fields model_class)"
  shows "\<exists>vals. default_values (model_fields model_class) = Inr vals \<and>
     create_default_response model_class = construct model_class vals \<and>
     (annotation = PClass ''str'' \<longrightarrow>
        map_of vals field_name = Some (PStr ''Error in analysis, using default'')) \<and>
     (annotation = PClass ''float'' \<longrightarrow> map_of vals field_name = Some (PFloat 0)) \<and>
     (annotation = PClass ''int'' \<longrightarrow> map_of vals field_name = Some (PInt 0)) \<and>
     (\<forall>args. annotation = PAlias (Some ''dict'') args \<longrightarrow>
        map_of vals field_name = Some (PDict [])) \<and>
     (\<forall>option options. annotation = PAlias (Some ''Literal'') (Some (option # options)) \<longrightarrow>
        map_of vals field_name = Some option) \<and>
     (\<forall>c. annotation = PClass c \<and> c \<noteq> ''str'' \<and> c \<noteq> ''float'' \<and> c \<noteq> ''int'' \<longrightarrow>
        map_of vals field_name = Some PNone)"
proof -
  let ?vals = "map (\<lambda>(n, a). (n, projr (default_value a))) (model_fields model_class)"
  have d: "default_values (model_fields model_class) = Inr ?vals"
    using assms(2) by (rule default_values_map)
  have c: "create_default_response model_class = construct model_class ?vals"
    unfolding create_default_response_def d by simp
  have m: "map_of ?vals field_name = Some (projr (default_value annotation))"
    using assms(1,3) by (rule map_of_defaults)
  have "annotation = PClass ''str'' \<longrightarrow>
        map_of ?vals field_name = Some (PStr ''Error in analysis, using default'')"
    unfolding m by simp
  moreover have "annotation = PClass ''float'' \<longrightarrow> map_of ?vals field_name = Some (PFloat 0)"
    unfolding m by simp
  moreover have "annotation = PClass ''int'' \<longrightarrow> map_of ?vals field_name = Some (PInt 0)"
    unfolding m by simp
  moreover have "\<forall>args. annotation = PAlias (Some ''dict'') args \<longrightarrow>
        map_of ?vals field_name = Some (PDict [])"
    unfolding m by simp
  moreover have "\<forall>option options. annotation = PAlias (Some ''Literal'') (Some (option # options)) \<longrightarrow>
        map_of ?vals field_name = Some option"
    unfolding m by simp
  moreover have "\<forall>c. annotation = PClass c \<and> c \<noteq> ''str'' \<and> c \<noteq> ''float'' \<and> c \<noteq> ''int'' \<longrightarrow>
        map_of ?vals field_name = Some PNone"
    unfolding m by simp
  ultimately show ?thesis using d c by blast
qed

text \<open>
  The amended claim C5 on the trading-signal model: the default of its \<open>Literal\<close> field is
  the first option.
\<close>

theorem default_values_by_kind_witness:
  "\<exists>vals. default_values (model_fields signal_model) = Inr vals \<and>
     map_of vals ''signal'' = Some (PStr ''bullish'')"
  using default_values_by_kind [of signal_model "''signal''"
      "PAlias (Some ''Literal'') (Some [PStr ''bullish'', PStr ''bearish'', PStr ''neutral''])"]
  by (simp add: signal_model_def pydantic_def usable_def)

text \<open>
  Claim C5 as stated fails: after three failed attempts without a fallback factory, the
  default of a \<open>str\<close> field is a fixed message, not the empty string.
\<close>

theorem default_values_string_counterexample:
  "call_llm json_loads failing_llm None (pydantic [(''reasoning'', PClass ''str'')]) 3 None
     = (Inr (PModel [(''reasoning'', PStr ''Error in analysis, using default'')]), 3) \<and>
   PStr ''Error in analysis, using default'' \<noteq> PStr []"
  by (simp add: call_llm_def numeral_3_eq_3 attempt_once_def failing_llm_def fallback_def
        create_default_response_def pydantic_def strict_construct_def)


lemma retry_loop_calls:
  "snd (retry_loop loads m manual llm max_retries df left attempt) \<le> attempt + left"
proof (induction left arbitrary: attempt)
  case 0
  then show ?case by simp
next
  case (Suc left)
  have "snd (retry_loop loads m manual llm max_retries df left (Suc attempt)) \<le> Suc attempt + left"
    by (rule Suc.IH)
  then show ?case by (simp split: option.splits)
qed

lemma call_llm_at_most_max_retries:
  "snd (call_llm loads llm model_info m max_retries df) \<le> nat max_retries"
  unfolding call_llm_def Let_def using retry_loop_calls[of loads m _ llm max_retries df "nat max_retries" 0]
  by simp

lemma attempt_once_failing: "attempt_once loads m manual (failing_llm attempt) = None"
  by (simp add: attempt_once_def failing_llm_def)

lemma retry_loop_failing:
  assumes "int (attempt + left) = max_retries" and "0 < left"
  shows "retry_loop loads m manual failing_llm max_retries df left attempt
         = (fallback m df, nat max_retries)"
  using assms
proof (induction left arbitrary: attempt)
  case 0
  then show ?case by simp
next
  case (Suc left)
  show ?case
  proof (cases "left = 0")
    case True
    then show ?thesis using Suc.prems
      by (auto simp: attempt_once_failing)
  next
    case False
    have "int (Suc attempt + left) = max_retries" using Suc.prems by simp
    then have "retry_loop loads m manual failing_llm max_retries df left (Suc attempt)
         = (fallback m df, nat max_retries)"
      using Suc.IH False by blast
    moreover have "int attempt \<noteq> max_retries - 1" using Suc.prems False by auto
    ultimately show ?thesis
      by (simp add: attempt_once_failing)
  qed
qed

lemma call_llm_failing_provider:
  assumes "0 < max_retries"
  shows "call_llm loads failing_llm model_info m max_retries df = (fallback m df, nat max_retries)"
  unfolding call_llm_def Let_def
  using retry_loop_failing[of 0 "nat max_retries" max_retries] assms by simp

text \<open>
  Claim C1 fails on the code.  For a model class with a \<open>bool\<close> field, a provider that
  fails at every attempt and no fallback factory, the schema default gives \<open>None\<close> to the
  \<open>bool\<close> field, the model class refuses it, and \<open>call_llm\<close> raises \<open>ValidationError\<close>
  from its exception handler after three attempts, instead of returning a value.
\<close>

theorem call_llm_raises_for_bool_field:
  "call_llm json_loads failing_llm None flagged_model 3 None = (Inl ValidationError, 3)"
  by (simp add: call_llm_failing_provider fallback_def create_default_response_def
        flagged_model_def pydantic_def strict_construct_def)


lemma py_find_Some:
  "py_find sub s = Some i \<Longrightarrow>
     i + length sub \<le> length s \<and> take (length sub) (drop i s) = sub \<and>
     (\<forall>j < i. take (length sub) (drop j s) \<noteq> sub)"
proof (induction s arbitrary: i)
  case Nil
  then show ?case by (simp split: if_splits)
next
  case (Cons c cs)
  show ?case
  proof (cases "take (length sub) (c # cs) = sub")
    case True
    then have "i = 0" using Cons.prems by simp
    moreover have "length sub \<le> length (c # cs)"
    proof -
      have "length (take (length sub) (c # cs)) = length sub" using True by simp
      then show ?thesis by simp
    qed
    ultimately show ?thesis using True by simp
  next
    case False
    then obtain i' where i': "py_find sub cs = Some i'" and i: "i = Suc i'"
      using Cons.prems by auto
    from Cons.IH[OF i'] have ih: "i' + length sub \<le> length cs"
      "take (length sub) (drop i' cs) = sub" "\<forall>j < i'. take (length sub) (drop j cs) \<noteq> sub"
      by auto
    have "\<forall>j < i. take (length sub) (drop j (c # cs)) \<noteq> sub"
    proof (intro allI impI)
      fix j assume "j < i"
      then show "take (length sub) (drop j (c # cs)) \<noteq> sub"
        using False ih(3) i by (cases j) auto
    qed
    then show ?thesis using ih i by simp
  qed
qed

lemma py_find_None:
  "py_find sub s = None \<Longrightarrow> \<forall>j \<le> length s. take (length sub) (drop j s) \<noteq> sub"
proof (induction s)
  case Nil
  then show ?case by (auto split: if_splits)
next
  case (Cons c cs)
  then have f: "take (length sub) (c # cs) \<noteq> sub" and n: "py_find sub cs = None"
    by (auto split: if_splits)
  show ?case
  proof (intro allI impI)
    fix j assume "j \<le> length (c # cs)"
    then show "take (length sub) (drop j (c # cs)) \<noteq> sub"
      using f Cons.IH[OF n] by (cases j) auto
  qed
qed

lemma remove_think_from_enough:
  "length s \<le> n \<Longrightarrow> remove_think_from n s = remove_think s"
proof (induction n arbitrary: s rule: less_induct)
  case (less n)
  show ?case
  proof (cases "py_find ''<think>'' s")
    case None
    then show ?thesis unfolding remove_think_def
      by (cases n; cases "length s") simp_all
  next
    case (Some i)
    from py_find_Some[OF Some] have i: "i + 7 \<le> length s" by simp
    then obtain n' where n: "n = Suc n'" using less.prems by (cases n) auto
    from i obtain l' where l: "length s = Suc l'" by (cases "length s") auto
    show ?thesis
    proof (cases "py_find ''</think>'' (drop (i + 7) s)")
      case None
      then show ?thesis unfolding remove_think_def using Some n l by simp
    next
      case (Some j)
      let ?rest = "drop (i + 7 + j + 8) s"
      have r: "length ?rest \<le> l'" using l by simp
      have "remove_think_from n' ?rest = remove_think ?rest"
        using less.IH[of n' ?rest] n r less.prems l by simp
      moreover have "remove_think_from l' ?rest = remove_think ?rest"
        using less.IH[of l' ?rest] r less.prems l by simp
      ultimately show ?thesis
        unfolding remove_think_def[of s] using \<open>py_find ''<think>'' s = Some i\<close> Some n l
        by simp
    qed
  qed
qed

lemma remove_think_none:
  "py_find ''<think>'' s = None \<Longrightarrow> remove_think s = s"
  unfolding remove_think_def by (cases "length s") simp_all

lemma remove_think_unclosed:
  "py_find ''<think>'' s = Some i \<Longrightarrow> py_find ''</think>'' (drop (i + 7) s) = None \<Longrightarrow>
   remove_think s = s"
  unfolding remove_think_def by (cases "length s") simp_all

lemma remove_think_closed:
  assumes "py_find ''<think>'' s = Some i" and "py_find ''</think>'' (drop (i + 7) s) = Some j"
  shows "remove_think s = take i s @ remove_think (drop (i + 7 + j + 8) s)"
proof -
  from py_find_Some[OF assms(1)] have "i + 7 \<le> length s" by simp
  then obtain l where l: "length s = Suc l" by (cases "length s") auto
  have "length (drop (i + 7 + j + 8) s) \<le> l" using l by simp
  then have "remove_think_from l (drop (i + 7 + j + 8) s) = remove_think (drop (i + 7 + j + 8) s)"
    by (rule remove_think_from_enough)
  then show ?thesis unfolding remove_think_def[of s] l using assms by simp
qed


lemma drop_past:
  "length a = 7 \<Longrightarrow> drop (length pre + 7) (pre @ a @ rest) = rest"
  "length a = 7 \<Longrightarrow> length b = 8 \<Longrightarrow>
     drop (length pre + 7 + length mid + 8) (pre @ a @ mid @ b @ post) = post"
  by simp_all

lemma remove_think_block:
  assumes "py_find ''<think>'' (pre @ ''<think>'' @ mid @ ''</think>'' @ post) = Some (length pre)"
    and "py_find ''</think>'' (mid @ ''</think>'' @ post) = Some (length mid)"
  shows "remove_think (pre @ ''<think>'' @ mid @ ''</think>'' @ post) = pre @ remove_think post"
proof -
  let ?s = "pre @ ''<think>'' @ mid @ ''</think>'' @ post"
  have l7: "length ''<think>'' = 7" and l8: "length ''</think>'' = 8" by simp_all
  have d: "drop (length pre + 7) ?s = mid @ ''</think>'' @ post"
    using l7 by (rule drop_past(1))
  have c: "py_find ''</think>'' (drop (length pre + 7) ?s) = Some (length mid)"
    using assms(2) by (simp only: d)
  have "remove_think ?s = take (length pre) ?s @ remove_think (drop (length pre + 7 + length mid + 8) ?s)"
    using assms(1) c by (rule remove_think_closed)
  moreover have "drop (length pre + 7 + length mid + 8) ?s = post"
    using l7 l8 by (rule drop_past(2))
  moreover have "take (length pre) ?s = pre" by simp
  ultimately show ?thesis by (simp only:)
qed

lemma json_block_cases:
  "py_find ''```json'' text = None \<Longrightarrow> json_block text = None"
  "py_find ''```json'' text = Some i \<Longrightarrow> py_find ''```'' (drop (i + 7) text) = None \<Longrightarrow>
     json_block text = None"
  "py_find ''```json'' text = Some i \<Longrightarrow> py_find ''```'' (drop (i + 7) text) = Some j \<Longrightarrow>
     json_block text = Some (py_strip (take j (drop (i + 7) text)))"
  by (simp_all add: json_block_def Let_def)

lemma dropWhile_all: "\<forall>c \<in> set l. P c \<Longrightarrow> dropWhile P (l @ r) = dropWhile P r"
  by (induction l) simp_all

lemma py_strip_core:
  assumes "\<forall>c \<in> set l. is_space c" and "\<forall>c \<in> set r. is_space c"
    and "core = [] \<or> (\<not> is_space (hd core) \<and> \<not> is_space (last core))"
  shows "py_strip (l @ core @ r) = core"
proof (cases "core = []")
  case True
  have e: "dropWhile is_space (l @ r) = []"
    using assms(1,2) by (auto simp: dropWhile_eq_Nil_conv)
  show ?thesis
    by (simp only: py_strip_def True append_Nil e dropWhile.simps rev.simps)
next
  case False
  then have h: "\<not> is_space (hd core)" and t: "\<not> is_space (last core)" using assms(3) by auto
  have 1: "dropWhile is_space (l @ core @ r) = core @ r"
    using assms(1) False h by (simp add: dropWhile_all) (cases core; simp)
  have "rev (core @ r) = rev r @ rev core" by simp
  moreover have "\<forall>c \<in> set (rev r). is_space c" using assms(2) by simp
  ultimately have "dropWhile is_space (rev (core @ r)) = dropWhile is_space (rev core)"
    by (simp only: dropWhile_all)
  moreover have "dropWhile is_space (rev core) = rev core"
    using False t by (cases "rev core") (auto simp: last_rev hd_rev)
  ultimately show ?thesis by (simp add: py_strip_def 1)
qed


lemma fenced_stripped: "py_strip (remove_think fenced_response) = fenced_text"
  by code_simp

lemma fenced_block: "json_block fenced_text = Some signal_text"
  by code_simp

lemma signal_decoded: "json_loads signal_text = Decoded (PDict [(''signal'', PStr ''bullish'')])"
  by code_simp

lemma extract_cases:
  "json_block (py_strip (remove_think content)) = Some json_text \<Longrightarrow> loads json_text = Decoded v \<Longrightarrow>
     extract_json_from_response loads content = v"
  "json_block (py_strip (remove_think content)) = Some json_text \<Longrightarrow> loads json_text = UnexpectedError \<Longrightarrow>
     extract_json_from_response loads content = PNone"
  "json_block (py_strip (remove_think content)) = Some json_text \<Longrightarrow> loads json_text = JSONDecodeError \<Longrightarrow>
     extract_json_from_response loads content =
        (case loads (py_strip (remove_think content)) of
           Decoded v \<Rightarrow> v | JSONDecodeError \<Rightarrow> PNone | UnexpectedError \<Rightarrow> PNone)"
  "json_block (py_strip (remove_think content)) = None \<Longrightarrow>
     extract_json_from_response loads content =
        (case loads (py_strip (remove_think content)) of
           Decoded v \<Rightarrow> v | JSONDecodeError \<Rightarrow> PNone | UnexpectedError \<Rightarrow> PNone)"
  by (simp_all add: extract_json_from_response_def Let_def)

lemma extract_none:
  assumes "extract_json_from_response loads content = PNone"
  shows "(\<forall>json_text. json_block (py_strip (remove_think content)) = Some json_text \<longrightarrow>
         loads json_text \<in> {Decoded PNone, JSONDecodeError, UnexpectedError}) \<and>
      (json_block (py_strip (remove_think content)) = None \<or>
         (\<exists>json_text. json_block (py_strip (remove_think content)) = Some json_text \<and>
            loads json_text = JSONDecodeError) \<longrightarrow>
         loads (py_strip (remove_think content)) \<in> {Decoded PNone, JSONDecodeError, UnexpectedError})"
  using assms
  by (auto simp add: extract_json_from_response_def Let_def split: option.splits decoded.splits)


text \<open>
  Claim C6, as amended.  The markup is removed first: a text without \<open><think>\<close>, or
  whose first \<open><think>\<close> has no \<open></think>\<close> behind it, is left as it is; otherwise the
  text from the first \<open><think>\<close> to the end of the first \<open></think>\<close> behind it is cut out,
  and the rest is treated in the same way.  Here \<open>py_find\<close> gives the first occurrence,
  \<open>py_strip\<close> takes the white space off both ends, and the block is the stripped text
  between the first \<open>```json\<close> and the next \<open>```\<close>.  Then, on the stripped text: a block
  that decodes is the result; a block that raises an error other than a decode error gives
  \<open>None\<close>; without a block, or with a block that is not valid JSON, the result is the
  decoded whole text, and \<open>None\<close> when that raises.  When the result is \<open>None\<close>, the
  block (if there is one) did not decode or decoded to \<open>None\<close> (the JSON text
  \<open>null\<close>), and the whole text, where it was tried, did not decode or decoded to
  \<open>None\<close>.  The response of the example loses its markup, its block is the text of the
  signal, and the result is what that text decodes to.
\<close>

theorem extract_json_order:
  "(py_find ''<think>'' content = None \<longrightarrow> remove_think content = content) \<and>
   (\<forall>i. py_find ''<think>'' content = Some i \<and> py_find ''</think>'' (drop (i + 7) content) = None \<longrightarrow>
      remove_think content = content) \<and>
   (\<forall>i j. py_find ''<think>'' content = Some i \<and>
          py_find ''</think>'' (drop (i + 7) content) = Some j \<longrightarrow>
      remove_think content = take i content @ remove_think (drop (i + 7 + j + 8) content)) \<and>
   (\<forall>sub s i. py_find sub s = Some i \<longrightarrow>
      i + length sub \<le> length s \<and> take (length sub) (drop i s) = sub \<and>
      (\<forall>j < i. take (length sub) (drop j s) \<noteq> sub)) \<and>
   (\<forall>sub s. py_find sub s = None \<longrightarrow> (\<forall>j \<le> length s. take (length sub) (drop j s) \<noteq> sub)) \<and>
   (\<forall>l core r. (\<forall>c \<in> set l. is_space c) \<and> (\<forall>c \<in> set r. is_space c) \<and>
        (core = [] \<or> (\<not> is_space (hd core) \<and> \<not> is_space (last core))) \<longrightarrow>
      py_strip (l @ core @ r) = core) \<and>
   (py_find ''```json'' (py_strip (remove_think content)) = None \<longrightarrow>
      json_block (py_strip (remove_think content)) = None) \<and>
   (\<forall>i. py_find ''```json'' (py_strip (remove_think content)) = Some i \<and>
        py_find ''```'' (drop (i + 7) (py_strip (remove_think content))) = None \<longrightarrow>
      json_block (py_strip (remove_think content)) = None) \<and>
   (\<forall>i j. py_find ''```json'' (py_strip (remove_think content)) = Some i \<and>
          py_find ''```'' (drop (i + 7) (py_strip (remove_think content))) = Some j \<longrightarrow>
      json_block (py_strip (remove_think content)) =
        Some (py_strip (take j (drop (i + 7) (py_strip (remove_think content)))))) \<and>
   (\<forall>json_text v. json_block (py_strip (remove_think content)) = Some json_text \<and>
        loads json_text = Decoded v \<longrightarrow>
      extract_json_from_response loads content = v) \<and>
   (\<forall>json_text. json_block (py_strip (remove_think content)) = Some json_text \<and>
        loads json_text = UnexpectedError \<longrightarrow>
      extract_json_from_response loads content = PNone) \<and>
   (json_block (py_strip (remove_think content)) = None \<or>
      (\<exists>json_text. json_block (py_strip (remove_think content)) = Some json_text \<and>
         loads json_text = JSONDecodeError) \<longrightarrow>
      extract_json_from_response loads content =
        (case loads (py_strip (remove_think content)) of
           Decoded v \<Rightarrow> v | JSONDecodeError \<Rightarrow> PNone | UnexpectedError \<Rightarrow> PNone)) \<and>
   (extract_json_from_response loads content = PNone \<longrightarrow>
      (\<forall>json_text. json_block (py_strip (remove_think content)) = Some json_text \<longrightarrow>
         loads json_text \<in> {Decoded PNone, JSONDecodeError, UnexpectedError}) \<and>
      (json_block (py_strip (remove_think content)) = None \<or>
         (\<exists>json_text. json_block (py_strip (remove_think content)) = Some json_text \<and>
            loads json_text = JSONDecodeError) \<longrightarrow>
         loads (py_strip (remove_think content)) \<in> {Decoded PNone, JSONDecodeError, UnexpectedError})) \<and>
   py_strip (remove_think fenced_response) = fenced_text \<and>
   json_block fenced_text = Some signal_text \<and>
   (loads signal_text = Decoded v' \<longrightarrow> extract_json_from_response loads fenced_response = v')"
proof (intro conjI)
  show "py_find ''<think>'' content = None \<longrightarrow> remove_think content = content"
    using remove_think_none by blast
  show "\<forall>i. py_find ''<think>'' content = Some i \<and> py_find ''</think>'' (drop (i + 7) content) = None \<longrightarrow>
      remove_think content = content"
    using remove_think_unclosed by blast
  show "\<forall>i j. py_find ''<think>'' content = Some i \<and>
          py_find ''</think>'' (drop (i + 7) content) = Some j \<longrightarrow>
      remove_think content = take i content @ remove_think (drop (i + 7 + j + 8) content)"
    using remove_think_closed by blast
  show "\<forall>sub s i. py_find sub s = Some i \<longrightarrow>
      i + length sub \<le> length s \<and> take (length sub) (drop i s) = sub \<and>
      (\<forall>j < i. take (length sub) (drop j s) \<noteq> sub)"
    using py_find_Some by blast
  show "\<forall>sub s. py_find sub s = None \<longrightarrow> (\<forall>j \<le> length s. take (length sub) (drop j s) \<noteq> sub)"
    using py_find_None by blast
  show "\<forall>l core r. (\<forall>c \<in> set l. is_space c) \<and> (\<forall>c \<in> set r. is_space c) \<and>
        (core = [] \<or> (\<not> is_space (hd core) \<and> \<not> is_space (last core))) \<longrightarrow>
      py_strip (l @ core @ r) = core"
    using py_strip_core by blast
  show "py_find ''```json'' (py_strip (remove_think content)) = None \<longrightarrow>
      json_block (py_strip (remove_think content)) = None"
    using json_block_cases(1) by blast
  show "\<forall>i. py_find ''```json'' (py_strip (remove_think content)) = Some i \<and>
        py_find ''```'' (drop (i + 7) (py_strip (remove_think content))) = None \<longrightarrow>
      json_block (py_strip (remove_think content)) = None"
    using json_block_cases(2) by blast
  show "\<forall>i j. py_find ''```json'' (py_strip (remove_think content)) = Some i \<and>
          py_find ''```'' (drop (i + 7) (py_strip (remove_think content))) = Some j \<longrightarrow>
      json_block (py_strip (remove_think content)) =
        Some (py_strip (take j (drop (i + 7) (py_strip (remove_think content)))))"
    using json_block_cases(3) by blast
  show "\<forall>json_text v. json_block (py_strip (remove_think content)) = Some json_text \<and>
        loads json_text = Decoded v \<longrightarrow>
      extract_json_from_response loads content = v"
    using extract_cases(1) by blast
  show "\<forall>json_text. json_block (py_strip (remove_think content)) = Some json_text \<and>
        loads json_text = UnexpectedError \<longrightarrow>
      extract_json_from_response loads content = PNone"
    using extract_cases(2) by blast
  show "json_block (py_strip (remove_think content)) = None \<or>
      (\<exists>json_text. json_block (py_strip (remove_think content)) = Some json_text \<and>
         loads json_text = JSONDecodeError) \<longrightarrow>
      extract_json_from_response loads content =
        (case loads (py_strip (remove_think content)) of
           Decoded v \<Rightarrow> v | JSONDecodeError \<Rightarrow> PNone | UnexpectedError \<Rightarrow> PNone)"
    using extract_cases(3)[of content _ loads] extract_cases(4)[of content loads] by blast
  show "extract_json_from_response loads content = PNone \<longrightarrow>
      (\<forall>json_text. json_block (py_strip (remove_think content)) = Some json_text \<longrightarrow>
         loads json_text \<in> {Decoded PNone, JSONDecodeError, UnexpectedError}) \<and>
      (json_block (py_strip (remove_think content)) = None \<or>
         (\<exists>json_text. json_block (py_strip (remove_think content)) = Some json_text \<and>
            loads json_text = JSONDecodeError) \<longrightarrow>
         loads (py_strip (remove_think content)) \<in> {Decoded PNone, JSONDecodeError, UnexpectedError})"
    using extract_none by blast
  show "py_strip (remove_think fenced_response) = fenced_text"
    by (rule fenced_stripped)
  show "json_block fenced_text = Some signal_text"
    by (rule fenced_block)
  show "loads signal_text = Decoded v' \<longrightarrow> extract_json_from_response loads fenced_response = v'"
    using extract_cases(1)[of fenced_response signal_text loads v'] fenced_stripped fenced_block
    by simp
qed

text \<open>
  Claim C6 on the example response, with the decoder: the result is the dictionary with
  \<open>signal\<close> mapped to \<open>bullish\<close>.
\<close>

theorem extract_json_order_witness:
  "json_loads signal_text = Decoded (PDict [(''signal'', PStr ''bullish'')]) \<and>
   extract_json_from_response json_loads fenced_response = PDict [(''signal'', PStr ''bullish'')]"
proof -
  have "json_loads signal_text = Decoded (PDict [(''signal'', PStr ''bullish'')]) \<longrightarrow>
        extract_json_from_response json_loads fenced_response = PDict [(''signal'', PStr ''bullish'')]"
    using extract_json_order [of fenced_response json_loads "PDict [(''signal'', PStr ''bullish'')]"]
    by (elim conjE)
  then show ?thesis using signal_decoded by blast
qed

lemma null_text: "py_strip (remove_think ''null'') = ''null''"
  by code_simp

lemma null_block: "json_block ''null'' = None"
  by code_simp

lemma null_decoded: "json_loads ''null'' = Decoded PNone"
  by code_simp

text \<open>
  Claim C6 as stated fails: the text \<open>null\<close> has no block and is valid JSON, so the second
  parser does not fail, and yet the result is \<open>None\<close>.
\<close>

theorem extract_json_null_counterexample:
  "extract_json_from_response json_loads ''null'' = PNone \<and>
   json_block (py_strip (remove_think ''null'')) = None \<and>
   json_loads (py_strip (remove_think ''null'')) = Decoded PNone"
  by (simp add: extract_json_from_response_def Let_def null_text null_block null_decoded)


text \<open>
  What \<open>parse_json_response\<close> does: \<open>None\<close> for a value that is not a string and for a
  string that \<open>json.loads\<close> raises on, and the decoded value for any other string; every
  exception is caught.  The \<open>decisions\<close> of \<open>run_hedge_fund\<close> are \<open>None\<close> unless the parsed
  value is a dictionary, and then its entry \<open>decisions\<close> or \<open>None\<close>.
\<close>

lemma parse_json_response_total:
  "((\<forall>s. response_content \<noteq> PStr s) \<longrightarrow> parse_json_response loads response_content = PNone) \<and>
   (loads s = JSONDecodeError \<or> loads s = UnexpectedError \<longrightarrow>
      parse_json_response loads (PStr s) = PNone) \<and>
   (loads s = Decoded v \<longrightarrow> parse_json_response loads (PStr s) = v) \<and>
   ((\<forall>d. parse_json_response loads response_content \<noteq> PDict d) \<longrightarrow>
      run_hedge_fund_decisions loads response_content = PNone) \<and>
   (parse_json_response loads response_content = PDict d \<longrightarrow>
      run_hedge_fund_decisions loads response_content =
        (case map_of d ''decisions'' of None \<Rightarrow> PNone | Some decisions \<Rightarrow> decisions))"
proof (intro conjI impI)
  assume "\<forall>s. response_content \<noteq> PStr s"
  then show "parse_json_response loads response_content = PNone"
    by (cases response_content) (simp_all add: parse_json_response_def)
next
  assume "loads s = JSONDecodeError \<or> loads s = UnexpectedError"
  then show "parse_json_response loads (PStr s) = PNone"
    by (auto simp: parse_json_response_def)
next
  assume "loads s = Decoded v"
  then show "parse_json_response loads (PStr s) = v"
    by (simp add: parse_json_response_def)
next
  assume "\<forall>d. parse_json_response loads response_content \<noteq> PDict d"
  then show "run_hedge_fund_decisions loads response_content = PNone"
    unfolding run_hedge_fund_decisions_def
    by (cases "parse_json_response loads response_content") simp_all
next
  assume "parse_json_response loads response_content = PDict d"
  then show "run_hedge_fund_decisions loads response_content =
        (case map_of d ''decisions'' of None \<Rightarrow> PNone | Some decisions \<Rightarrow> decisions)"
    by (simp add: run_hedge_fund_decisions_def)
qed

lemma list_decoded: "json_loads ''[1]'' = Decoded (PList [PInt 1])"
  by code_simp

text \<open>
  Claim C10 fails on the code.  The signature of \<open>parse_json_response\<close> is
  \<open>dict | None\<close> and its docstring says that it returns a dictionary; for the text of a
  JSON array it returns a list, which is neither.  The decisions of \<open>run_hedge_fund\<close> are
  \<open>None\<close> there, as its check of the type provides.
\<close>

theorem parse_json_response_returns_list:
  "parse_json_response json_loads (PStr ''[1]'') = PList [PInt 1] \<and>
   PList [PInt 1] \<noteq> PNone \<and>
   (\<nexists>d. PList [PInt 1] = PDict d) \<and>
   run_hedge_fund_decisions json_loads (PStr ''[1]'') = PNone"
  by (simp add: parse_json_response_def run_hedge_fund_decisions_def list_decoded)

section \<open>Properties of the fundamentals agent\<close>

lemma py_round2_unit:
  assumes "0 \<le> x" and "x \<le> 1"
  shows "0 \<le> py_round2 x \<and> py_round2 x \<le> 1"
proof -
  let ?b = "\<lfloor>x * 100\<rfloor>"
  let ?part = "x * 100 - of_int ?b"
  let ?r = "if ?part < 1 / 2 then ?b else if ?part > 1 / 2 then ?b + 1
            else if even ?b then ?b else ?b + 1"
  have b0: "0 \<le> ?b" using assms(1) by simp
  have b100: "?b \<le> 100" using assms(2) by (simp add: floor_le_iff)
  have top: "?b = 100 \<Longrightarrow> ?part < 1 / 2"
  proof -
    assume b: "?b = 100"
    have "x * 100 \<le> 100" using assms(2) by simp
    then show "?part < 1 / 2" using b by simp
  qed
  have r0: "0 \<le> ?r" using b0 by auto
  have r100: "?r \<le> 100"
  proof (cases "?b = 100")
    case True
    then have "?r = ?b" using top by simp
    then show ?thesis using True by simp
  next
    case False
    then have "?b + 1 \<le> 100" using b100 by linarith
    moreover have "?r \<le> ?b + 1" by simp
    ultimately show ?thesis by linarith
  qed
  have eq: "py_round2 x = of_int ?r / 100"
    by (simp add: py_round2_def Let_def)
  have "0 \<le> (of_int ?r :: real)" using r0 by (simp only: of_int_0_le_iff)
  moreover have "(of_int ?r :: real) \<le> 100" using r100 by (metis of_int_le_iff of_int_numeral)
  ultimately show ?thesis unfolding eq by simp
qed

lemma count_signal_le: "count_signal s signals \<le> length signals"
  by (simp add: count_signal_def)

lemma overall_good:
  assumes "signals \<noteq> []"
  shows "signal (overall signals) \<in> {''bullish'', ''bearish'', ''neutral''} \<and>
         0 \<le> confidence (overall signals) \<and> confidence (overall signals) \<le> 100"
proof -
  let ?m = "max (count_signal ''bullish'' signals) (count_signal ''bearish'' signals)"
  have len: "0 < length signals" using assms by simp
  have "?m \<le> length signals" using count_signal_le by (simp add: max_def)
  then have q: "0 \<le> real ?m / real (length signals) \<and> real ?m / real (length signals) \<le> 1"
    using len by (simp add: divide_le_eq)
  have c: "confidence (overall signals) = py_round2 (real ?m / real (length signals)) * 100"
    by (simp add: overall_def Let_def)
  have "0 \<le> py_round2 (real ?m / real (length signals)) \<and> py_round2 (real ?m / real (length signals)) \<le> 1"
    using q by (intro py_round2_unit) auto
  then have "0 \<le> confidence (overall signals) \<and> confidence (overall signals) \<le> 100"
    unfolding c by simp
  moreover have "signal (overall signals) \<in> {''bullish'', ''bearish'', ''neutral''}"
    by (simp add: overall_def Let_def)
  ultimately show ?thesis by blast
qed

lemma analyze_ticker_good:
  assumes "analyze_ticker p e t m = Inr a"
  shows "signal a \<in> {''bullish'', ''bearish'', ''neutral''} \<and> 0 \<le> confidence a \<and> confidence a \<le> 100"
proof -
  from assms obtain d where
    "a = overall [profitability_signal m, growth_signal m, financial_health_signal m,
                  price_ratios_signal m, d]"
    by (auto simp: analyze_ticker_def Let_def split: sum.splits)
  then show ?thesis using overall_good by blast
qed

lemma dividend_signal_returns:
  "strptime_year p e \<noteq> None \<Longrightarrow> \<exists>d. dividend_signal p e h price eps = Inr d"
  by (simp add: dividend_signal_def Let_def)

lemma analyze_ticker_returns:
  assumes "strptime_year p e \<noteq> None"
  shows "\<exists>a. analyze_ticker p e t m = Inr a"
proof -
  let ?price = "case api_get_prices p t e e of [] \<Rightarrow> None | price # others \<Rightarrow> Some price"
  let ?eps = "case api_search_line_items p t e of [] \<Rightarrow> None | item # others \<Rightarrow> item"
  obtain d where "dividend_signal p e (api_get_dividend_history p t) ?price ?eps = Inr d"
    using dividend_signal_returns[OF assms] by blast
  then show ?thesis by (simp add: analyze_ticker_def Let_def)
qed


lemma analyze_tickers_skip:
  "analyze_tickers p e ts acc =
   analyze_tickers p e (filter (\<lambda>t. api_get_financial_metrics p t e \<noteq> []) ts) acc"
  by (induction ts arbitrary: acc) (auto split: list.splits sum.splits)

lemma analyze_tickers_returns:
  assumes "strptime_year p e \<noteq> None"
  shows "\<exists>fa. analyze_tickers p e ts acc = Inr fa"
proof (induction ts arbitrary: acc)
  case Nil
  then show ?case by simp
next
  case (Cons t ts)
  show ?case
  proof (cases "api_get_financial_metrics p t e")
    case Nil
    then show ?thesis using Cons.IH by simp
  next
    case (Cons m older)
    obtain a where "analyze_ticker p e t m = Inr a"
      using analyze_ticker_returns[OF assms] by blast
    then show ?thesis using Cons Cons.IH by simp
  qed
qed

lemma analyze_tickers_entries:
  assumes "analyze_tickers p e ts acc = Inr fa"
  shows "(\<forall>t. api_get_financial_metrics p t e = [] \<longrightarrow> fa t = acc t) \<and>
         (\<forall>t a. fa t = Some a \<longrightarrow>
            acc t = Some a \<or> (t \<in> set ts \<and> api_get_financial_metrics p t e \<noteq> [] \<and> good a)) \<and>
         (\<forall>t. (t \<in> set ts \<and> api_get_financial_metrics p t e \<noteq> []) \<or> acc t \<noteq> None \<longrightarrow> fa t \<noteq> None)"
  using assms
proof (induction ts arbitrary: acc)
  case Nil
  then show ?case by simp
next
  case (Cons t ts)
  show ?case
  proof (cases "api_get_financial_metrics p t e")
    case Nil
    then have "analyze_tickers p e ts acc = Inr fa" using Cons.prems by simp
    from Cons.IH[OF this] show ?thesis using Nil by auto
  next
    case (Cons m older)
    then obtain a where a: "analyze_ticker p e t m = Inr a"
      and rest: "analyze_tickers p e ts (acc(t \<mapsto> a)) = Inr fa"
      using Cons.prems by (auto split: sum.splits)
    have ga: "good a" using analyze_ticker_good[OF a] by (simp add: good_def)
    note ih = Cons.IH[OF rest]
    have 1: "\<forall>u. api_get_financial_metrics p u e = [] \<longrightarrow> fa u = acc u"
    proof (intro allI impI)
      fix u assume u: "api_get_financial_metrics p u e = []"
      then have "u \<noteq> t" using Cons by auto
      then show "fa u = acc u" using ih u by simp
    qed
    have 2: "\<forall>u b. fa u = Some b \<longrightarrow>
            acc u = Some b \<or> (u \<in> set (t # ts) \<and> api_get_financial_metrics p u e \<noteq> [] \<and> good b)"
    proof (intro allI impI)
      fix u b assume "fa u = Some b"
      then have c: "(acc(t \<mapsto> a)) u = Some b \<or> (u \<in> set ts \<and> api_get_financial_metrics p u e \<noteq> [] \<and> good b)"
        using ih by blast
      show "acc u = Some b \<or> (u \<in> set (t # ts) \<and> api_get_financial_metrics p u e \<noteq> [] \<and> good b)"
      proof (cases "u = t")
        case True
        then show ?thesis using c ga Cons by auto
      next
        case False
        then show ?thesis using c by auto
      qed
    qed
    have 3: "\<forall>u. (u \<in> set (t # ts) \<and> api_get_financial_metrics p u e \<noteq> []) \<or> acc u \<noteq> None \<longrightarrow> fa u \<noteq> None"
    proof (intro allI impI)
      fix u assume h: "(u \<in> set (t # ts) \<and> api_get_financial_metrics p u e \<noteq> []) \<or> acc u \<noteq> None"
      have "(u \<in> set ts \<and> api_get_financial_metrics p u e \<noteq> []) \<or> (acc(t \<mapsto> a)) u \<noteq> None"
        using h by (cases "u = t") auto
      then show "fa u \<noteq> None" using ih by blast
    qed
    show ?thesis using 1 2 3 by blast
  qed
qed


text \<open>
  Claim C9.  For every list of tickers and every data provider: the analysis is the one of
  the tickers that have financial metrics, the others are passed over; the agent returns
  whenever the end date is a date; and when it returns, the analysis stored under
  \<open>fundamentals_agent\<close> has no key for a ticker without metrics, has a key for every ticker
  of the list with metrics, and every entry belongs to a ticker of the list, has the signal
  \<open>bullish\<close>, \<open>bearish\<close> or \<open>neutral\<close> and a confidence from 0 to 100.
\<close>

theorem fundamentals_agent_skips_and_bounds:
  "analyze_tickers provider (end_date state) (tickers state) Map.empty =
     analyze_tickers provider (end_date state)
       (filter (\<lambda>t. api_get_financial_metrics provider t (end_date state) \<noteq> []) (tickers state))
       Map.empty \<and>
   (strptime_year provider (end_date state) \<noteq> None \<longrightarrow>
      (\<exists>state'. fundamentals_agent provider state = Inr state')) \<and>
   (fundamentals_agent provider state = Inr state' \<longrightarrow>
      (\<exists>fundamental_analysis.
          analyst_signals state' ''fundamentals_agent'' = Some fundamental_analysis \<and>
          (\<forall>t. api_get_financial_metrics provider t (end_date state) = [] \<longrightarrow>
                 fundamental_analysis t = None) \<and>
          (\<forall>t \<in> set (tickers state).
             api_get_financial_metrics provider t (end_date state) \<noteq> [] \<longrightarrow>
               fundamental_analysis t \<noteq> None) \<and>
          (\<forall>t entry. fundamental_analysis t = Some entry \<longrightarrow>
             t \<in> set (tickers state) \<and>
             signal entry \<in> {''bullish'', ''bearish'', ''neutral''} \<and>
             0 \<le> confidence entry \<and> confidence entry \<le> 100)))"
proof (intro conjI impI)
  show "analyze_tickers provider (end_date state) (tickers state) Map.empty =
     analyze_tickers provider (end_date state)
       (filter (\<lambda>t. api_get_financial_metrics provider t (end_date state) \<noteq> []) (tickers state))
       Map.empty"
    by (rule analyze_tickers_skip)
next
  assume "strptime_year provider (end_date state) \<noteq> None"
  then obtain fa where "analyze_tickers provider (end_date state) (tickers state) Map.empty = Inr fa"
    using analyze_tickers_returns by blast
  then show "\<exists>state'. fundamentals_agent provider state = Inr state'"
    by (simp add: fundamentals_agent_def)
next
  assume "fundamentals_agent provider state = Inr state'"
  then obtain fa where
    fa: "analyze_tickers provider (end_date state) (tickers state) Map.empty = Inr fa"
    and st: "state' = state\<lparr>analyst_signals := (analyst_signals state)(''fundamentals_agent'' \<mapsto> fa)\<rparr>"
    by (auto simp: fundamentals_agent_def split: sum.splits)
  note e = analyze_tickers_entries[OF fa]
  have 1: "analyst_signals state' ''fundamentals_agent'' = Some fa" using st by simp
  have 2: "\<forall>t. api_get_financial_metrics provider t (end_date state) = [] \<longrightarrow> fa t = None"
    using e by simp
  have 3: "\<forall>t \<in> set (tickers state).
             api_get_financial_metrics provider t (end_date state) \<noteq> [] \<longrightarrow> fa t \<noteq> None"
    using e by blast
  have 4: "\<forall>t entry. fa t = Some entry \<longrightarrow>
             t \<in> set (tickers state) \<and>
             signal entry \<in> {''bullish'', ''bearish'', ''neutral''} \<and>
             0 \<le> confidence entry \<and> confidence entry \<le> 100"
  proof (intro allI impI)
    fix t entry assume "fa t = Some entry"
    then have "t \<in> set (tickers state) \<and> good entry" using e by auto
    then show "t \<in> set (tickers state) \<and>
             signal entry \<in> {''bullish'', ''bearish'', ''neutral''} \<and>
             0 \<le> confidence entry \<and> confidence entry \<le> 100"
      by (simp only: good_def) 
  qed
  show "\<exists>fundamental_analysis.
          analyst_signals state' ''fundamentals_agent'' = Some fundamental_analysis \<and>
          (\<forall>t. api_get_financial_metrics provider t (end_date state) = [] \<longrightarrow>
                 fundamental_analysis t = None) \<and>
          (\<forall>t \<in> set (tickers state).
             api_get_financial_metrics provider t (end_date state) \<noteq> [] \<longrightarrow>
               fundamental_analysis t \<noteq> None) \<and>
          (\<forall>t entry. fundamental_analysis t = Some entry \<longrightarrow>
             t \<in> set (tickers state) \<and>
             signal entry \<in> {''bullish'', ''bearish'', ''neutral''} \<and>
             0 \<le> confidence entry \<and> confidence entry \<le> 100)"
    using 1 2 3 4 by blast
qed

lemma aaa_entry:
  "analyze_ticker aaa_only ''2024-01-31'' ''AAA'' aaa_metrics =
     Inr \<lparr>signal = ''neutral'', confidence = 40,
          reasoning = [(''profitability_signal'', ''bullish''), (''growth_signal'', ''bearish''),
                       (''financial_health_signal'', ''bullish''), (''price_ratios_signal'', ''bearish''),
                       (''dividend_signal'', ''neutral'')]\<rparr>"
  by code_simp


text \<open>
  Claim C9 on the scenario of the specification: with data for \<open>AAA\<close> only, the run
  returns, \<open>AAA\<close> has an entry within the bounds and \<open>BBB\<close> has no key.
\<close>

theorem fundamentals_agent_skips_and_bounds_witness:
  "\<exists>state' fundamental_analysis entry.
      fundamentals_agent aaa_only two_tickers = Inr state' \<and>
      analyst_signals state' ''fundamentals_agent'' = Some fundamental_analysis \<and>
      fundamental_analysis ''BBB'' = None \<and>
      fundamental_analysis ''AAA'' = Some entry \<and>
      signal entry \<in> {''bullish'', ''bearish'', ''neutral''} \<and>
      0 \<le> confidence entry \<and> confidence entry \<le> 100"
proof -
  have y: "strptime_year aaa_only (end_date two_tickers) \<noteq> None"
    by (simp add: aaa_only_def two_tickers_def)
  have b: "api_get_financial_metrics aaa_only ''BBB'' (end_date two_tickers) = []"
    by (simp add: aaa_only_def)
  have a: "''AAA'' \<in> set (tickers two_tickers) \<and>
           api_get_financial_metrics aaa_only ''AAA'' (end_date two_tickers) \<noteq> []"
    by (simp add: aaa_only_def two_tickers_def)
  from fundamentals_agent_skips_and_bounds[of aaa_only two_tickers] y
  obtain state' where s: "fundamentals_agent aaa_only two_tickers = Inr state'"
    by blast
  from fundamentals_agent_skips_and_bounds[of aaa_only two_tickers state'] s
  obtain fa where fa: "analyst_signals state' ''fundamentals_agent'' = Some fa"
    and skip: "\<forall>t. api_get_financial_metrics aaa_only t (end_date two_tickers) = [] \<longrightarrow> fa t = None"
    and kept: "\<forall>t \<in> set (tickers two_tickers).
             api_get_financial_metrics aaa_only t (end_date two_tickers) \<noteq> [] \<longrightarrow> fa t \<noteq> None"
    and bounds: "\<forall>t entry. fa t = Some entry \<longrightarrow>
             t \<in> set (tickers two_tickers) \<and>
             signal entry \<in> {''bullish'', ''bearish'', ''neutral''} \<and>
             0 \<le> confidence entry \<and> confidence entry \<le> 100"
    by blast
  from kept a obtain entry where e: "fa ''AAA'' = Some entry" by blast
  have "fa ''BBB'' = None" using skip b by blast
  moreover have "signal entry \<in> {''bullish'', ''bearish'', ''neutral''} \<and>
      0 \<le> confidence entry \<and> confidence entry \<le> 100"
    using bounds e by blast
  ultimately show ?thesis using s fa e by blast
qed


end
